theory Spec2Isabelle
  imports Complex_Main "HOL-Library.Word"
begin

unbundle bit_operations_syntax

section \<open>JavaScript numbers\<close>

text \<open>
  A number of the language is an IEEE 754 double: NaN, an infinity, or a finite value,
  kept here as the real number it stands for. The two zeros are the one value \<open>Fin 0\<close>:
  in arithmetic they differ only as divisors, and the divisors in the script are the
  width and height of a rectangle and the constant 6. A count \<open>n\<close> (a width, a height,
  a canvas size) enters the arithmetic as \<open>Fin (real n)\<close>.
\<close>

datatype xnum = NaN | NegInf | Fin real | PosInf

text \<open>
  The exact operations, with the standard's rules for NaN, the infinities and a zero
  divisor.
\<close>

fun xneg :: "xnum \<Rightarrow> xnum" where
  "xneg NaN = NaN"
| "xneg NegInf = PosInf"
| "xneg (Fin a) = Fin (- a)"
| "xneg PosInf = NegInf"

fun xadd :: "xnum \<Rightarrow> xnum \<Rightarrow> xnum" where
  "xadd (Fin a) (Fin b) = Fin (a + b)"
| "xadd NaN b = NaN"
| "xadd a NaN = NaN"
| "xadd PosInf NegInf = NaN"
| "xadd NegInf PosInf = NaN"
| "xadd PosInf b = PosInf"
| "xadd a PosInf = PosInf"
| "xadd NegInf b = NegInf"
| "xadd a NegInf = NegInf"

fun xsgn :: "xnum \<Rightarrow> int" where
  "xsgn NaN = 0"
| "xsgn NegInf = - 1"
| "xsgn (Fin a) = (if 0 < a then 1 else if a < 0 then - 1 else 0)"
| "xsgn PosInf = 1"

fun xmul :: "xnum \<Rightarrow> xnum \<Rightarrow> xnum" where
  "xmul (Fin a) (Fin b) = Fin (a * b)"
| "xmul NaN b = NaN"
| "xmul a NaN = NaN"
| "xmul a b =
     (if xsgn a * xsgn b = 0 then NaN else if 0 < xsgn a * xsgn b then PosInf else NegInf)"

fun xdiv :: "xnum \<Rightarrow> xnum \<Rightarrow> xnum" where
  "xdiv (Fin a) (Fin b) =
     (if b \<noteq> 0 then Fin (a / b) else if a = 0 then NaN else if 0 < a then PosInf else NegInf)"
| "xdiv NaN b = NaN"
| "xdiv a NaN = NaN"
| "xdiv (Fin a) b = Fin 0"
| "xdiv PosInf (Fin b) = (if 0 \<le> b then PosInf else NegInf)"
| "xdiv NegInf (Fin b) = (if 0 \<le> b then NegInf else PosInf)"
| "xdiv a b = NaN"

text \<open>
  \<^verbatim>\<open>Math.min\<close> and \<^verbatim>\<open>Math.max\<close> (NaN if either argument is) and \<^verbatim>\<open>Math.round\<close>
  (to the nearest integer, a half upwards).
\<close>

fun xmin :: "xnum \<Rightarrow> xnum \<Rightarrow> xnum" where
  "xmin (Fin a) (Fin b) = Fin (min a b)"
| "xmin NaN b = NaN"
| "xmin a NaN = NaN"
| "xmin NegInf b = NegInf"
| "xmin a NegInf = NegInf"
| "xmin PosInf b = b"
| "xmin a PosInf = a"

fun xmax :: "xnum \<Rightarrow> xnum \<Rightarrow> xnum" where
  "xmax (Fin a) (Fin b) = Fin (max a b)"
| "xmax NaN b = NaN"
| "xmax a NaN = NaN"
| "xmax PosInf b = PosInf"
| "xmax a PosInf = PosInf"
| "xmax NegInf b = b"
| "xmax a NegInf = a"

fun xround :: "xnum \<Rightarrow> xnum" where
  "xround (Fin a) = Fin (of_int \<lfloor>a + 1 / 2\<rfloor>)"
| "xround a = a"

text \<open>\<^verbatim>\<open>Math.floor\<close> and the comparison \<^verbatim>\<open><=\<close>; both are exact on doubles.\<close>

fun xfloor :: "xnum \<Rightarrow> xnum" where
  "xfloor (Fin a) = Fin (of_int \<lfloor>a\<rfloor>)"
| "xfloor a = a"

fun xle :: "xnum \<Rightarrow> xnum \<Rightarrow> bool" where
  "xle (Fin a) (Fin b) = (a \<le> b)"
| "xle NaN b = False"
| "xle a NaN = False"
| "xle NegInf b = True"
| "xle a PosInf = True"
| "xle a b = False"

text \<open>
  Rounding a real to the nearest double, ties to the even significand: 53 significant
  bits, the unit in the last place never below \<open>2 powi (- 1074)\<close> (gradual underflow),
  and an infinity once the rounded value reaches \<open>2 ^ 1024\<close>.
\<close>

definition round_half_even :: "real \<Rightarrow> int" where
  "round_half_even r =
     (let f = \<lfloor>r\<rfloor>
      in if r - of_int f < 1 / 2 then f
         else if 1 / 2 < r - of_int f then f + 1
         else if even f then f else f + 1)"

definition binary64 :: "real \<Rightarrow> xnum" where
  "binary64 r =
     (if r = 0 then Fin 0
      else let e = max \<lfloor>log 2 \<bar>r\<bar>\<rfloor> (- 1022);
               ulp = 2 powi (e - 52);
               y = of_int (round_half_even (\<bar>r\<bar> / ulp)) * ulp
           in if 2 ^ 1024 \<le> y then (if 0 < r then PosInf else NegInf)
              else Fin (sgn r * y))"

text \<open>
  The magnitude that a positive real is rounded to, before the test for overflow: the
  value \<open>y\<close> of \<open>binary64\<close>, named for the lemmas on the order of rounded numbers.
\<close>

definition magnitude64 :: "real \<Rightarrow> real" where
  "magnitude64 r =
     of_int (round_half_even (r / 2 powi (max \<lfloor>log 2 r\<rfloor> (- 1022) - 52)))
       * 2 powi (max \<lfloor>log 2 r\<rfloor> (- 1022) - 52)"

fun rounded :: "xnum \<Rightarrow> xnum" where
  "rounded (Fin a) = binary64 a"
| "rounded a = a"

text \<open>The operators \<^verbatim>\<open>+\<close>, \<^verbatim>\<open>-\<close>, \<^verbatim>\<open>*\<close> and \<^verbatim>\<open>/\<close>: the exact result, rounded.\<close>

definition js_add :: "xnum \<Rightarrow> xnum \<Rightarrow> xnum" where
  "js_add a b = rounded (xadd a b)"

definition js_sub :: "xnum \<Rightarrow> xnum \<Rightarrow> xnum" where
  "js_sub a b = rounded (xadd a (xneg b))"

definition js_mul :: "xnum \<Rightarrow> xnum \<Rightarrow> xnum" where
  "js_mul a b = rounded (xmul a b)"

definition js_div :: "xnum \<Rightarrow> xnum \<Rightarrow> xnum" where
  "js_div a b = rounded (xdiv a b)"

section \<open>The host: canvas context, page elements, animation frames\<close>

text \<open>
  The script \<^verbatim>\<open>www/index.js\<close> talks to three things outside itself: the 2D canvas
  context \<^verbatim>\<open>ctx\<close>, two page elements (the play/pause button and the FPS box) and the
  imported engine (\<^verbatim>\<open>Universe\<close> and the raw \<^verbatim>\<open>memory\<close>). Every call that leaves the
  script is recorded, in program order, as one \<open>action\<close> of a log.
\<close>

datatype canvas_op =
    BeginPath
  | SetStrokeStyle string
  | MoveTo nat nat
  | LineTo nat nat
  | Stroke
  | SetFillStyle string
  | FillRect nat nat nat nat

text \<open>The two button captions are the glyphs U+23F8 (shown while running) and U+25B6.\<close>

datatype button_label = PauseGlyph | PlayGlyph

text \<open>
  \<open>FpsText latest avg min max\<close> is the assignment to \<^verbatim>\<open>this.fps.textContent\<close>: the
  template around the four rounded numbers is fixed text.
\<close>

datatype 'n action =
    UniverseTick
  | UniverseToggleCell xnum xnum
  | UniverseCells
  | Ctx canvas_op
  | ButtonText button_label
  | FpsText 'n 'n 'n 'n
  | RequestAnimationFrame nat
  | CancelAnimationFrame "nat option"

section \<open>The imported engine\<close>

text \<open>
  The engine is not part of the script; it is a parameter. \<open>'u\<close> is the engine's state,
  \<open>memory_buffer\<close> the bytes of the linear memory by address, \<open>universe_cells\<close> the
  pointer that \<^verbatim>\<open>universe.cells()\<close> returns.
\<close>

record 'u wasm =
  Universe_new :: 'u
  universe_width :: "'u \<Rightarrow> nat"
  universe_height :: "'u \<Rightarrow> nat"
  universe_tick :: "'u \<Rightarrow> 'u"
  universe_toggle_cell :: "xnum \<Rightarrow> xnum \<Rightarrow> 'u \<Rightarrow> 'u"
  universe_cells :: "'u \<Rightarrow> nat"
  memory_buffer :: "'u \<Rightarrow> nat \<Rightarrow> 8 word"

definition CELL_SIZE :: nat where
  "CELL_SIZE = 5"

definition GRID_COLOR :: string where
  "GRID_COLOR = ''#CCCCCC''"

definition DEAD_COLOR :: string where
  "DEAD_COLOR = ''#FFFFFF''"

definition ALIVE_COLOR :: string where
  "ALIVE_COLOR = ''#000000''"

text \<open>\<^verbatim>\<open>const width = universe.width(); const height = universe.height();\<close>, read once.\<close>

definition width :: "'u wasm \<Rightarrow> nat" where
  "width E = universe_width E (Universe_new E)"

definition height :: "'u wasm \<Rightarrow> nat" where
  "height E = universe_height E (Universe_new E)"

definition canvas_height :: "'u wasm \<Rightarrow> nat" where
  "canvas_height E = (CELL_SIZE + 1) * height E + 1"

definition canvas_width :: "'u wasm \<Rightarrow> nat" where
  "canvas_width E = (CELL_SIZE + 1) * width E + 1"

section \<open>Typed-array views\<close>

text \<open>
  \<^verbatim>\<open>new Uint8Array(buffer, byteOffset, length)\<close> is a window on the buffer. Reading an
  index at or beyond \<open>arr_length\<close> does not fail in JavaScript: it yields
  \<^verbatim>\<open>undefined\<close>, here \<open>None\<close>. A fractional length argument is truncated. The
  constructor itself throws when the window does not fit in the buffer; that the cells
  lie inside the linear memory is the engine's obligation, and the buffer is a total
  function of the address.
\<close>

record uint8array =
  arr_buffer :: "nat \<Rightarrow> 8 word"
  arr_byteOffset :: nat
  arr_length :: nat

definition arr_get :: "uint8array \<Rightarrow> nat \<Rightarrow> 8 word option" where
  "arr_get arr i =
     (if i < arr_length arr then Some (arr_buffer arr (arr_byteOffset arr + i)) else None)"

text \<open>The operands of \<^verbatim>\<open>&\<close> are converted to 32-bit integers; \<^verbatim>\<open>undefined\<close> becomes 0.\<close>

fun ToInt32 :: "8 word option \<Rightarrow> 32 word" where
  "ToInt32 None = 0"
| "ToInt32 (Some b) = ucast b"

section \<open>Drawing\<close>

text \<open>
  Rows, columns and cell indices are natural numbers: the loops count up from 0, and
  \<^verbatim>\<open>Math.floor(n / 8)\<close> and \<^verbatim>\<open>n % 8\<close> are \<open>div\<close> and \<open>mod\<close> there. The lists
  of canvas operations are in the order of the calls.
\<close>

definition getIndex :: "'u wasm \<Rightarrow> nat \<Rightarrow> nat \<Rightarrow> nat" where
  "getIndex E row column = row * width E + column"

definition bitIsSet :: "nat \<Rightarrow> uint8array \<Rightarrow> bool" where
  "bitIsSet n arr =
     (let byte = n div 8;
          mask = (push_bit (n mod 8) 1 :: 32 word)
      in (ToInt32 (arr_get arr byte) AND mask) = mask)"

function drawGrid_vertical :: "'u wasm \<Rightarrow> nat \<Rightarrow> canvas_op list" where
  "drawGrid_vertical E i =
     (if i \<le> width E
      then [MoveTo (i * (CELL_SIZE + 1) + 1) 0,
            LineTo (i * (CELL_SIZE + 1) + 1) ((CELL_SIZE + 1) * height E + 1)]
           @ drawGrid_vertical E (Suc i)
      else [])"
  by pat_completeness auto
termination
  by (relation "measure (\<lambda>(E, i). Suc (width E) - i)") auto

function drawGrid_horizontal :: "'u wasm \<Rightarrow> nat \<Rightarrow> canvas_op list" where
  "drawGrid_horizontal E j =
     (if j \<le> height E
      then [MoveTo 0 (j * (CELL_SIZE + 1) + 1),
            LineTo ((CELL_SIZE + 1) * width E + 1) (j * (CELL_SIZE + 1) + 1)]
           @ drawGrid_horizontal E (Suc j)
      else [])"
  by pat_completeness auto
termination
  by (relation "measure (\<lambda>(E, j). Suc (height E) - j)") auto

definition drawGrid_ops :: "'u wasm \<Rightarrow> canvas_op list" where
  "drawGrid_ops E =
     [BeginPath, SetStrokeStyle GRID_COLOR]
     @ drawGrid_vertical E 0 @ drawGrid_horizontal E 0 @ [Stroke]"

text \<open>The view that \<^verbatim>\<open>drawCells\<close> lays over the engine's memory.\<close>

definition cells_view :: "'u wasm \<Rightarrow> 'u \<Rightarrow> uint8array" where
  "cells_view E u =
     \<lparr>arr_buffer = memory_buffer E u,
      arr_byteOffset = universe_cells E u,
      arr_length = (width E * height E) div 8\<rparr>"

function drawCells_cols :: "'u wasm \<Rightarrow> uint8array \<Rightarrow> nat \<Rightarrow> nat \<Rightarrow> canvas_op list" where
  "drawCells_cols E cells row col =
     (if col < width E
      then [SetFillStyle
              (if bitIsSet (getIndex E row col) cells then ALIVE_COLOR else DEAD_COLOR),
            FillRect (col * (CELL_SIZE + 1) + 1) (row * (CELL_SIZE + 1) + 1)
              CELL_SIZE CELL_SIZE]
           @ drawCells_cols E cells row (Suc col)
      else [])"
  by pat_completeness auto
termination
  by (relation "measure (\<lambda>(E, cells, row, col). width E - col)") auto

function drawCells_rows :: "'u wasm \<Rightarrow> uint8array \<Rightarrow> nat \<Rightarrow> canvas_op list" where
  "drawCells_rows E cells row =
     (if row < height E
      then drawCells_cols E cells row 0 @ drawCells_rows E cells (Suc row)
      else [])"
  by pat_completeness auto
termination
  by (relation "measure (\<lambda>(E, cells, row). height E - row)") auto

definition drawCells_ops :: "'u wasm \<Rightarrow> 'u \<Rightarrow> canvas_op list" where
  "drawCells_ops E u =
     BeginPath # drawCells_rows E (cells_view E u) 0 @ [Stroke]"

section \<open>The timer's arithmetic\<close>

text \<open>
  The FPS timer computes with IEEE doubles, infinities included. Its arithmetic is a
  parameter: \<open>'n\<close> is the type of numbers and the record below the operations the
  timer uses, so what is proved of the timer holds for every arithmetic.
\<close>

record 'n number =
  num_of_nat :: "nat \<Rightarrow> 'n"
  Infinity :: 'n
  num_neg :: "'n \<Rightarrow> 'n"
  num_add :: "'n \<Rightarrow> 'n \<Rightarrow> 'n"
  num_sub :: "'n \<Rightarrow> 'n \<Rightarrow> 'n"
  num_mul :: "'n \<Rightarrow> 'n \<Rightarrow> 'n"
  num_div :: "'n \<Rightarrow> 'n \<Rightarrow> 'n"
  Math_min :: "'n \<Rightarrow> 'n \<Rightarrow> 'n"
  Math_max :: "'n \<Rightarrow> 'n \<Rightarrow> 'n"
  Math_round :: "'n \<Rightarrow> 'n"

section \<open>The FPS timer\<close>

record 'n fps_timer =
  frames :: "'n list"
  lastFrameTimeStamp :: 'n

text \<open>\<open>now\<close> is what \<^verbatim>\<open>performance.now()\<close> returns in the call.\<close>

definition fps_constructor :: "'n \<Rightarrow> 'n fps_timer" where
  "fps_constructor now = \<lparr>frames = [], lastFrameTimeStamp = now\<rparr>"

text \<open>The statistics loop; the triple is \<open>(min, max, sum)\<close>.\<close>

function fps_stats :: "'n number \<Rightarrow> 'n list \<Rightarrow> nat \<Rightarrow> 'n \<times> 'n \<times> 'n \<Rightarrow> 'n \<times> 'n \<times> 'n" where
  "fps_stats N fs i (mn, mx, sm) =
     (if i < length fs
      then let sm' = num_add N sm (fs ! i);
               mn' = Math_min N (fs ! i) mn;
               mx' = Math_max N (fs ! i) mx
           in fps_stats N fs (Suc i) (mn', mx', sm')
      else (mn, mx, sm))"
  by pat_completeness auto
termination
  by (relation "measure (\<lambda>(N, fs, i, acc). length fs - i)") auto

definition fps_sample :: "'n number \<Rightarrow> 'n \<Rightarrow> 'n \<Rightarrow> 'n" where
  "fps_sample N now lastTimeStamp =
     (let delta = num_sub N now lastTimeStamp
      in num_mul N (num_div N (num_of_nat N 1) delta) (num_of_nat N 1000))"

definition fps_render :: "'n number \<Rightarrow> 'n \<Rightarrow> 'n fps_timer \<Rightarrow> 'n fps_timer \<times> 'n action" where
  "fps_render N now this =
     (let fps = fps_sample N now (lastFrameTimeStamp this);
          this1 = this\<lparr>lastFrameTimeStamp := now\<rparr>;
          this2 = this1\<lparr>frames := frames this1 @ [fps]\<rparr>;
          this3 = (if length (frames this2) > 100
                   then this2\<lparr>frames := tl (frames this2)\<rparr> else this2);
          (mn, mx, sm) =
            fps_stats N (frames this3) 0
              (Infinity N, num_neg N (Infinity N), num_of_nat N 0);
          mean = num_div N sm (num_of_nat N (length (frames this3)))
      in (this3,
          FpsText (Math_round N fps) (Math_round N mean) (Math_round N mn) (Math_round N mx)))"

section \<open>The page's state\<close>

text \<open>
  \<open>page\<close> is the state both versions of the script share: the engine's universe, the
  variable \<^verbatim>\<open>animationId\<close>, the host's list of pending animation-frame callbacks with
  its handle counter, and the log. \<open>page_fps\<close> adds the \<^verbatim>\<open>fps\<close> object of
  \<^verbatim>\<open>www/index.js\<close>. Functions whose text is the same in both files are defined once,
  on any extension of \<open>page\<close>.
\<close>

record ('u, 'n) page =
  universe :: 'u
  animationId :: "nat option"
  callbacks :: "nat list"
  handle_counter :: nat
  log :: "'n action list"

record ('u, 'n) page_fps = "('u, 'n) page" +
  fps :: "'n fps_timer"

definition emit :: "'n action list \<Rightarrow> ('u, 'n, 'z) page_scheme \<Rightarrow> ('u, 'n, 'z) page_scheme" where
  "emit acts s = s\<lparr>log := log s @ acts\<rparr>"

text \<open>
  The host numbers animation-frame callbacks from 1 and keeps the pending ones in a list;
  cancelling a handle that is not pending (also \<^verbatim>\<open>null\<close>, which converts to 0) does
  nothing.
\<close>

definition requestAnimationFrame ::
  "('u, 'n, 'z) page_scheme \<Rightarrow> nat \<times> ('u, 'n, 'z) page_scheme" where
  "requestAnimationFrame s =
     (let h = Suc (handle_counter s)
      in (h, emit [RequestAnimationFrame h]
               (s\<lparr>handle_counter := h, callbacks := callbacks s @ [h]\<rparr>)))"

definition cancelAnimationFrame ::
  "nat option \<Rightarrow> ('u, 'n, 'z) page_scheme \<Rightarrow> ('u, 'n, 'z) page_scheme" where
  "cancelAnimationFrame h s =
     emit [CancelAnimationFrame h]
       (s\<lparr>callbacks := removeAll (case h of None \<Rightarrow> 0 | Some i \<Rightarrow> i) (callbacks s)\<rparr>)"

definition drawGrid :: "'u wasm \<Rightarrow> ('u, 'n, 'z) page_scheme \<Rightarrow> ('u, 'n, 'z) page_scheme" where
  "drawGrid E s = emit (map Ctx (drawGrid_ops E)) s"

definition drawCells :: "'u wasm \<Rightarrow> ('u, 'n, 'z) page_scheme \<Rightarrow> ('u, 'n, 'z) page_scheme" where
  "drawCells E s = emit (UniverseCells # map Ctx (drawCells_ops E (universe s))) s"

definition isPaused :: "('u, 'n, 'z) page_scheme \<Rightarrow> bool" where
  "isPaused s = (animationId s = None)"

definition pause :: "('u, 'n, 'z) page_scheme \<Rightarrow> ('u, 'n, 'z) page_scheme" where
  "pause s =
     (let s1 = emit [ButtonText PlayGlyph] s;
          s2 = cancelAnimationFrame (animationId s1) s1
      in s2\<lparr>animationId := None\<rparr>)"

subsection \<open>\<^verbatim>\<open>www/index.js\<close>\<close>

definition renderLoop ::
  "'n number \<Rightarrow> 'u wasm \<Rightarrow> 'n \<Rightarrow> ('u, 'n) page_fps \<Rightarrow> ('u, 'n) page_fps" where
  "renderLoop N E now s =
     (let (this, text) = fps_render N now (fps s);
          s1 = emit [text] (s\<lparr>fps := this\<rparr>);
          s2 = emit [UniverseTick] (s1\<lparr>universe := universe_tick E (universe s1)\<rparr>);
          s3 = drawGrid E s2;
          s4 = drawCells E s3;
          (h, s5) = requestAnimationFrame s4
      in s5\<lparr>animationId := Some h\<rparr>)"

definition play ::
  "'n number \<Rightarrow> 'u wasm \<Rightarrow> 'n \<Rightarrow> ('u, 'n) page_fps \<Rightarrow> ('u, 'n) page_fps" where
  "play N E now s = renderLoop N E now (emit [ButtonText PauseGlyph] s)"

definition playPauseButton_click ::
  "'n number \<Rightarrow> 'u wasm \<Rightarrow> 'n \<Rightarrow> ('u, 'n) page_fps \<Rightarrow> ('u, 'n) page_fps" where
  "playPauseButton_click N E now s = (if isPaused s then play N E now s else pause s)"

subsection \<open>The canvas click listener\<close>

text \<open>
  A click carries \<^verbatim>\<open>event.clientX\<close>, \<^verbatim>\<open>event.clientY\<close> and the canvas's bounding
  rectangle at that moment, all numbers. \<^verbatim>\<open>canvas.width\<close> and \<^verbatim>\<open>canvas.height\<close>
  are the integers the top level stored, and \<^verbatim>\<open>width\<close>, \<^verbatim>\<open>height\<close> and
  \<^verbatim>\<open>CELL_SIZE\<close> enter the arithmetic as numbers.
\<close>

record click =
  clientX :: xnum
  clientY :: xnum
  rect_left :: xnum
  rect_top :: xnum
  rect_width :: xnum
  rect_height :: xnum

definition scaleX :: "'u wasm \<Rightarrow> click \<Rightarrow> xnum" where
  "scaleX E event = js_div (Fin (real (canvas_width E))) (rect_width event)"

definition scaleY :: "'u wasm \<Rightarrow> click \<Rightarrow> xnum" where
  "scaleY E event = js_div (Fin (real (canvas_height E))) (rect_height event)"

definition canvasLeft :: "'u wasm \<Rightarrow> click \<Rightarrow> xnum" where
  "canvasLeft E event = js_mul (js_sub (clientX event) (rect_left event)) (scaleX E event)"

definition canvasTop :: "'u wasm \<Rightarrow> click \<Rightarrow> xnum" where
  "canvasTop E event = js_mul (js_sub (clientY event) (rect_top event)) (scaleY E event)"

definition click_row :: "'u wasm \<Rightarrow> click \<Rightarrow> xnum" where
  "click_row E event =
     xmin (xfloor (js_div (canvasTop E event) (js_add (Fin (real CELL_SIZE)) (Fin 1))))
          (js_sub (Fin (real (height E))) (Fin 1))"

definition click_col :: "'u wasm \<Rightarrow> click \<Rightarrow> xnum" where
  "click_col E event =
     xmin (xfloor (js_div (canvasLeft E event) (js_add (Fin (real CELL_SIZE)) (Fin 1))))
          (js_sub (Fin (real (width E))) (Fin 1))"

definition canvas_click ::
  "'u wasm \<Rightarrow> click \<Rightarrow> ('u, 'n, 'z) page_scheme \<Rightarrow> ('u, 'n, 'z) page_scheme" where
  "canvas_click E event s =
     (let row = click_row E event;
          col = click_col E event;
          s1 = emit [UniverseToggleCell row col]
                 (s\<lparr>universe := universe_toggle_cell E row col (universe s)\<rparr>);
          s2 = drawGrid E s1
      in drawCells E s2)"

subsection \<open>Events\<close>

text \<open>
  The host runs one handler at a time, to completion. \<open>AnimationFrame h now\<close> is the
  host running the pending callback with handle \<open>h\<close> (every callback the script
  registers is \<^verbatim>\<open>renderLoop\<close>); a handle that is not pending has no callback and
  nothing runs. \<open>now\<close> is the clock during the handler.
\<close>

datatype 'n event =
    AnimationFrame nat 'n
  | PlayPauseClick 'n
  | CanvasClick click

fun step ::
  "'n number \<Rightarrow> 'u wasm \<Rightarrow> ('u, 'n) page_fps \<Rightarrow> 'n event \<Rightarrow> ('u, 'n) page_fps" where
  "step N E s (AnimationFrame h now) =
     (if h \<in> set (callbacks s)
      then renderLoop N E now (s\<lparr>callbacks := removeAll h (callbacks s)\<rparr>)
      else s)"
| "step N E s (PlayPauseClick now) = playPauseButton_click N E now s"
| "step N E s (CanvasClick event) = canvas_click E event s"

definition run ::
  "'n number \<Rightarrow> 'u wasm \<Rightarrow> ('u, 'n) page_fps \<Rightarrow> 'n event list \<Rightarrow> ('u, 'n) page_fps" where
  "run N E s evs = foldl (step N E) s evs"

text \<open>
  The top level of the script: the timer is constructed at \<open>now0\<close>, the first scene is
  drawn, and \<^verbatim>\<open>play()\<close> runs at \<open>now1\<close>.
\<close>

definition init :: "'n number \<Rightarrow> 'u wasm \<Rightarrow> 'n \<Rightarrow> 'n \<Rightarrow> ('u, 'n) page_fps" where
  "init N E now0 now1 =
     (let s0 = \<lparr>universe = Universe_new E, animationId = None, callbacks = [],
                handle_counter = 0, log = [], fps = fps_constructor now0\<rparr>;
          s1 = drawGrid E s0;
          s2 = drawCells E s1
      in play N E now1 s2)"

subsection \<open>The version without the timer\<close>

text \<open>
  The second file differs from \<^verbatim>\<open>www/index.js\<close> in two places: it has no \<^verbatim>\<open>fps\<close>
  object, and its \<^verbatim>\<open>renderLoop\<close> does not call \<^verbatim>\<open>fps.render()\<close>. Its
  \<^verbatim>\<open>renderLoop\<close> and what calls it are restated here on \<open>page\<close>.
\<close>

definition renderLoop_part_000 :: "'u wasm \<Rightarrow> ('u, 'n) page \<Rightarrow> ('u, 'n) page" where
  "renderLoop_part_000 E s =
     (let s2 = emit [UniverseTick] (s\<lparr>universe := universe_tick E (universe s)\<rparr>);
          s3 = drawGrid E s2;
          s4 = drawCells E s3;
          (h, s5) = requestAnimationFrame s4
      in s5\<lparr>animationId := Some h\<rparr>)"

definition play_part_000 :: "'u wasm \<Rightarrow> ('u, 'n) page \<Rightarrow> ('u, 'n) page" where
  "play_part_000 E s = renderLoop_part_000 E (emit [ButtonText PauseGlyph] s)"

definition playPauseButton_click_part_000 :: "'u wasm \<Rightarrow> ('u, 'n) page \<Rightarrow> ('u, 'n) page" where
  "playPauseButton_click_part_000 E s = (if isPaused s then play_part_000 E s else pause s)"

fun step_part_000 :: "'u wasm \<Rightarrow> ('u, 'n) page \<Rightarrow> 'n event \<Rightarrow> ('u, 'n) page" where
  "step_part_000 E s (AnimationFrame h now) =
     (if h \<in> set (callbacks s)
      then renderLoop_part_000 E (s\<lparr>callbacks := removeAll h (callbacks s)\<rparr>)
      else s)"
| "step_part_000 E s (PlayPauseClick now) = playPauseButton_click_part_000 E s"
| "step_part_000 E s (CanvasClick event) = canvas_click E event s"

definition run_part_000 :: "'u wasm \<Rightarrow> ('u, 'n) page \<Rightarrow> 'n event list \<Rightarrow> ('u, 'n) page" where
  "run_part_000 E s evs = foldl (step_part_000 E) s evs"

definition init_part_000 :: "'u wasm \<Rightarrow> ('u, 'n) page" where
  "init_part_000 E =
     (let s0 = \<lparr>universe = Universe_new E, animationId = None, callbacks = [],
                handle_counter = 0, log = []\<rparr>;
          s1 = drawGrid E s0;
          s2 = drawCells E s1
      in play_part_000 E s2)"

text \<open>What remains of a state of \<^verbatim>\<open>www/index.js\<close> when the timer is forgotten.\<close>

fun is_FpsText :: "'n action \<Rightarrow> bool" where
  "is_FpsText (FpsText a b c d) = True"
| "is_FpsText _ = False"

definition erase_fps :: "('u, 'n) page_fps \<Rightarrow> ('u, 'n) page" where
  "erase_fps s =
     \<lparr>universe = universe s, animationId = animationId s, callbacks = callbacks s,
      handle_counter = handle_counter s,
      log = filter (\<lambda>a. \<not> is_FpsText a) (log s)\<rparr>"

section \<open>Notions the properties are stated with\<close>

text \<open>The shape of the callback list in every state the script can reach.\<close>

definition pending_ok :: "('u, 'n, 'z) page_scheme \<Rightarrow> bool" where
  "pending_ok s = (callbacks s = (case animationId s of None \<Rightarrow> [] | Some h \<Rightarrow> [h]))"

text \<open>The timer after a sequence of \<^verbatim>\<open>render\<close> calls, one per clock value.\<close>

definition fps_renders :: "'n number \<Rightarrow> 'n fps_timer \<Rightarrow> 'n list \<Rightarrow> 'n fps_timer" where
  "fps_renders N this nows = foldl (\<lambda>t now. fst (fps_render N now t)) this nows"

fun is_PlayPauseClick :: "'n event \<Rightarrow> bool" where
  "is_PlayPauseClick (PlayPauseClick now) = True"
| "is_PlayPauseClick _ = False"

fun is_CanvasClick :: "'n event \<Rightarrow> bool" where
  "is_CanvasClick (CanvasClick c) = True"
| "is_CanvasClick _ = False"

definition count_action :: "'n action \<Rightarrow> 'n action list \<Rightarrow> nat" where
  "count_action a acts = length (filter (\<lambda>b. b = a) acts)"

text \<open>
  The clamp itself, for a coordinate \<open>c\<close> and a count \<open>n\<close> of rows or columns.
\<close>

definition clamp_cell :: "xnum \<Rightarrow> nat \<Rightarrow> xnum" where
  "clamp_cell c n =
     xmin (xfloor (js_div c (js_add (Fin (real CELL_SIZE)) (Fin 1))))
          (js_sub (Fin (real n)) (Fin 1))"

section \<open>Instances to run the script on\<close>

text \<open>
  A small engine: the universe is the byte array of its cells (one bit per cell,
  row-major, at address 0), \<^verbatim>\<open>toggle_cell\<close> flips one bit and a tick inverts every byte.
  It stands in for the real engine only where a concrete run is evaluated.
\<close>

fun example_index :: "xnum \<Rightarrow> nat" where
  "example_index (Fin a) = nat \<lfloor>a\<rfloor>"
| "example_index a = 0"

definition example_engine :: "nat \<Rightarrow> nat \<Rightarrow> (8 word list) wasm" where
  "example_engine w h =
     \<lparr>Universe_new = replicate ((w * h + 7) div 8) 0,
      universe_width = (\<lambda>u. w),
      universe_height = (\<lambda>u. h),
      universe_tick = map NOT,
      universe_toggle_cell =
        (\<lambda>row col u. let n = example_index row * w + example_index col
                      in u[n div 8 := (u ! (n div 8)) XOR push_bit (n mod 8) 1]),
      universe_cells = (\<lambda>u. 0),
      memory_buffer = (\<lambda>u a. if a < length u then u ! a else 0)\<rparr>"

text \<open>The arithmetic of doubles as an instance of the timer's parameter.\<close>

definition example_number :: "xnum number" where
  "example_number =
     \<lparr>num_of_nat = (\<lambda>k. binary64 (real k)),
      Infinity = PosInf,
      num_neg = xneg,
      num_add = js_add,
      num_sub = js_sub,
      num_mul = js_mul,
      num_div = js_div,
      Math_min = xmin,
      Math_max = xmax,
      Math_round = xround\<rparr>"

text \<open>
  A click 24 pixels right of and 8 pixels below the corner of an unscaled canvas; on a
  universe four cells wide that is the canvas's right border line.
\<close>

definition example_click :: "'u wasm \<Rightarrow> click" where
  "example_click E =
     \<lparr>clientX = Fin 34, clientY = Fin 28, rect_left = Fin 10, rect_top = Fin 20,
      rect_width = Fin (real (canvas_width E)), rect_height = Fin (real (canvas_height E))\<rparr>"

text \<open>A click event whose coordinates lie 6 pixels left of and 6 pixels above that corner.\<close>

definition example_click_outside :: "'u wasm \<Rightarrow> click" where
  "example_click_outside E =
     \<lparr>clientX = Fin 4, clientY = Fin 14, rect_left = Fin 10, rect_top = Fin 20,
      rect_width = Fin (real (canvas_width E)), rect_height = Fin (real (canvas_height E))\<rparr>"

text \<open>
  A click on a canvas that is not rendered, as \<^verbatim>\<open>canvas.click()\<close> dispatches it: the
  coordinates and the bounding rectangle are all zero.
\<close>

definition example_click_hidden :: click where
  "example_click_hidden =
     \<lparr>clientX = Fin 0, clientY = Fin 0, rect_left = Fin 0, rect_top = Fin 0,
      rect_width = Fin 0, rect_height = Fin 0\<rparr>"

text \<open>
  The canvas of a universe of 8 by 2 cells (49 by 13 canvas pixels) shown stretched to a
  width of 385 pixels, clicked 330 pixels from its left edge, at its top edge.
\<close>

definition example_click_scaled :: click where
  "example_click_scaled =
     \<lparr>clientX = Fin 330, clientY = Fin 0, rect_left = Fin 0, rect_top = Fin 0,
      rect_width = Fin 385, rect_height = Fin 13\<rparr>"

text \<open>The page on a 4 by 4 universe, paused right after loading.\<close>

definition example_paused :: "(8 word list, xnum) page_fps" where
  "example_paused = pause (init example_number (example_engine 4 4) (Fin 0) (Fin 16))"

text \<open>The page on an 8 by 2 universe, after loading.\<close>

definition example_wide :: "(8 word list, xnum) page_fps" where
  "example_wide = init example_number (example_engine 8 2) (Fin 0) (Fin 16)"

section \<open>The loops\<close>

declare drawGrid_vertical.simps [simp del] drawGrid_horizontal.simps [simp del]
  drawCells_cols.simps [simp del] drawCells_rows.simps [simp del] fps_stats.simps [simp del]


lemma bitIsSet_iff:
  "bitIsSet n arr \<longleftrightarrow> (case arr_get arr (n div 8) of None \<Rightarrow> False | Some b \<Rightarrow> bit b (n mod 8))"
proof (cases "arr_get arr (n div 8)")
  case None
  have "(push_bit (n mod 8) 1 :: 32 word) \<noteq> 0"
    by (simp add: push_bit_eq_mult)
  with None show ?thesis by (simp add: bitIsSet_def)
next
  case (Some b)
  have "n mod 8 < 8" by simp
  then have lt: "n mod 8 < 32" by simp
  have "((ucast b :: 32 word) AND push_bit (n mod 8) 1) = push_bit (n mod 8) 1 \<longleftrightarrow> bit b (n mod 8)"
  proof
    assume "((ucast b :: 32 word) AND push_bit (n mod 8) 1) = push_bit (n mod 8) 1"
    then have "bit ((ucast b :: 32 word) AND push_bit (n mod 8) 1) (n mod 8)
                 = bit (push_bit (n mod 8) 1 :: 32 word) (n mod 8)"
      by simp
    with lt show "bit b (n mod 8)"
      by (simp add: bit_simps)
  next
    assume "bit b (n mod 8)"
    then show "((ucast b :: 32 word) AND push_bit (n mod 8) 1) = push_bit (n mod 8) 1"
      by (intro bit_word_eqI) (auto simp add: bit_simps)
  qed
  with Some show ?thesis by (simp add: bitIsSet_def)
qed

lemma drawCells_cols_length:
  "length (drawCells_cols E cells row col) = 2 * (width E - col)"
proof (induction E cells row col rule: drawCells_cols.induct)
  case (1 E cells row col)
  show ?case
  proof (cases "col < width E")
    case True
    then have "width E - col = Suc (width E - Suc col)" by simp
    with True "1.IH" show ?thesis
      by (subst drawCells_cols.simps) simp
  next
    case False
    then show ?thesis by (subst drawCells_cols.simps) simp
  qed
qed

lemma drawCells_cols_nth:
  "c \<le> col \<Longrightarrow> col < width E \<Longrightarrow>
   drawCells_cols E cells row c ! (2 * (col - c)) =
     SetFillStyle (if bitIsSet (getIndex E row col) cells then ALIVE_COLOR else DEAD_COLOR) \<and>
   drawCells_cols E cells row c ! (2 * (col - c) + 1) =
     FillRect (col * (CELL_SIZE + 1) + 1) (row * (CELL_SIZE + 1) + 1) CELL_SIZE CELL_SIZE"
proof (induction E cells row c rule: drawCells_cols.induct)
  case (1 E cells row c)
  show ?case
  proof (cases "c = col")
    case True
    with "1.prems" show ?thesis by (subst (1 2) drawCells_cols.simps) simp
  next
    case False
    with "1.prems" have lt: "Suc c \<le> col" "c < width E" by simp_all
    from "1.IH" [OF lt(2) lt(1) "1.prems"(2)]
    have IH: "drawCells_cols E cells row (Suc c) ! (2 * (col - Suc c)) =
     SetFillStyle (if bitIsSet (getIndex E row col) cells then ALIVE_COLOR else DEAD_COLOR)"
      "drawCells_cols E cells row (Suc c) ! (2 * (col - Suc c) + 1) =
     FillRect (col * (CELL_SIZE + 1) + 1) (row * (CELL_SIZE + 1) + 1) CELL_SIZE CELL_SIZE"
      by simp_all
    from lt have e: "2 * (col - c) = Suc (Suc (2 * (col - Suc c)))" by simp
    show ?thesis
      using lt IH by (subst (1 2) drawCells_cols.simps) (simp add: e)
  qed
qed

lemma drawCells_rows_length:
  "length (drawCells_rows E cells row) = 2 * width E * (height E - row)"
proof (induction E cells row rule: drawCells_rows.induct)
  case (1 E cells row)
  show ?case
  proof (cases "row < height E")
    case True
    then have "height E - row = Suc (height E - Suc row)" by simp
    with True "1.IH" show ?thesis
      by (subst drawCells_rows.simps) (simp add: drawCells_cols_length)
  next
    case False
    then show ?thesis by (subst drawCells_rows.simps) simp
  qed
qed

lemma drawCells_rows_nth:
  "r \<le> row \<Longrightarrow> row < height E \<Longrightarrow> col < width E \<Longrightarrow>
   drawCells_rows E cells r ! (2 * ((row - r) * width E + col)) =
     SetFillStyle (if bitIsSet (getIndex E row col) cells then ALIVE_COLOR else DEAD_COLOR) \<and>
   drawCells_rows E cells r ! (2 * ((row - r) * width E + col) + 1) =
     FillRect (col * (CELL_SIZE + 1) + 1) (row * (CELL_SIZE + 1) + 1) CELL_SIZE CELL_SIZE"
proof (induction E cells r rule: drawCells_rows.induct)
  case (1 E cells r)
  from "1.prems" have rlt: "r < height E" by simp
  show ?case
  proof (cases "r = row")
    case True
    from "1.prems"(3) have b: "2 * col < 2 * width E" "2 * col + 1 < 2 * width E" by simp_all
    have unf: "drawCells_rows E cells r =
        drawCells_cols E cells r 0 @ drawCells_rows E cells (Suc r)"
      using rlt by (subst drawCells_rows.simps) simp
    have l: "length (drawCells_cols E cells r 0) = 2 * width E"
      by (simp add: drawCells_cols_length)
    from True have i0: "2 * ((row - r) * width E + col) = 2 * col" by simp
    have "(drawCells_cols E cells r 0 @ drawCells_rows E cells (Suc r)) ! (2 * col)
            = drawCells_cols E cells r 0 ! (2 * col)"
         "(drawCells_cols E cells r 0 @ drawCells_rows E cells (Suc r)) ! (2 * col + 1)
            = drawCells_cols E cells r 0 ! (2 * col + 1)"
      using b l by (simp_all only: nth_append if_True)
    with drawCells_cols_nth [of 0 col E cells row] "1.prems"(3) True
    show ?thesis
      unfolding unf i0 by simp
  next
    case False
    with "1.prems" have le: "Suc r \<le> row" by simp
    note IH = "1.IH" [OF rlt le "1.prems"(2,3)]
    from le have e: "(row - r) * width E = width E + (row - Suc r) * width E"
      by (metis Suc_diff_le diff_Suc_Suc mult_Suc)
    have i1: "2 * ((row - r) * width E + col) =
        length (drawCells_cols E cells r 0) + 2 * ((row - Suc r) * width E + col)"
      using e by (simp add: drawCells_cols_length)
    have i2: "2 * ((row - r) * width E + col) + 1 =
        length (drawCells_cols E cells r 0) + (2 * ((row - Suc r) * width E + col) + 1)"
      using i1 by simp
    have unf: "drawCells_rows E cells r =
        drawCells_cols E cells r 0 @ drawCells_rows E cells (Suc r)"
      using rlt by (subst drawCells_rows.simps) simp
    show ?thesis
      unfolding unf i2 unfolding i1 nth_append_length_plus
      using IH by simp
  qed
qed

section \<open>What each handler does to the state\<close>

lemma emit_fields:
  "log (emit acts s) = log s @ acts"
  "universe (emit acts s) = universe s"
  "animationId (emit acts s) = animationId s"
  "callbacks (emit acts s) = callbacks s"
  "handle_counter (emit acts s) = handle_counter s"
  by (simp_all add: emit_def)

lemma emit_fps: "fps (emit acts s) = fps s"
  by (simp add: emit_def)

lemma drawGrid_fields:
  "log (drawGrid E s) = log s @ map Ctx (drawGrid_ops E)"
  "universe (drawGrid E s) = universe s"
  "animationId (drawGrid E s) = animationId s"
  "callbacks (drawGrid E s) = callbacks s"
  "handle_counter (drawGrid E s) = handle_counter s"
  by (simp_all add: drawGrid_def emit_fields)

lemma drawCells_fields:
  "log (drawCells E s) = log s @ UniverseCells # map Ctx (drawCells_ops E (universe s))"
  "universe (drawCells E s) = universe s"
  "animationId (drawCells E s) = animationId s"
  "callbacks (drawCells E s) = callbacks s"
  "handle_counter (drawCells E s) = handle_counter s"
  by (simp_all add: drawCells_def emit_fields)

lemma draw_fps:
  "fps (drawGrid E s) = fps s"
  "fps (drawCells E s) = fps s"
  by (simp_all add: drawGrid_def drawCells_def emit_fps)

lemma renderLoop_fields:
  "universe (renderLoop N E now s) = universe_tick E (universe s)"
  "animationId (renderLoop N E now s) = Some (Suc (handle_counter s))"
  "callbacks (renderLoop N E now s) = callbacks s @ [Suc (handle_counter s)]"
  "handle_counter (renderLoop N E now s) = Suc (handle_counter s)"
  "fps (renderLoop N E now s) = fst (fps_render N now (fps s))"
  "log (renderLoop N E now s) =
     log s @ [snd (fps_render N now (fps s)), UniverseTick] @ map Ctx (drawGrid_ops E)
       @ UniverseCells # map Ctx (drawCells_ops E (universe_tick E (universe s)))
       @ [RequestAnimationFrame (Suc (handle_counter s))]"
  by (simp_all add: renderLoop_def requestAnimationFrame_def Let_def emit_fields emit_fps
        drawGrid_fields drawCells_fields draw_fps split: prod.splits)

lemma pause_fields:
  "universe (pause s) = universe s"
  "animationId (pause s) = None"
  "callbacks (pause s) =
     removeAll (case animationId s of None \<Rightarrow> 0 | Some i \<Rightarrow> i) (callbacks s)"
  "handle_counter (pause s) = handle_counter s"
  "log (pause s) = log s @ [ButtonText PlayGlyph, CancelAnimationFrame (animationId s)]"
  by (simp_all add: pause_def cancelAnimationFrame_def Let_def emit_fields)

lemma pause_fps: "fps (pause s) = fps s"
  by (simp add: pause_def cancelAnimationFrame_def Let_def emit_def)

lemma canvas_click_fields:
  "universe (canvas_click E ev s) =
     universe_toggle_cell E (click_row E ev) (click_col E ev) (universe s)"
  "animationId (canvas_click E ev s) = animationId s"
  "callbacks (canvas_click E ev s) = callbacks s"
  "handle_counter (canvas_click E ev s) = handle_counter s"
  "log (canvas_click E ev s) =
     log s @ UniverseToggleCell (click_row E ev) (click_col E ev) # map Ctx (drawGrid_ops E)
       @ UniverseCells
       # map Ctx (drawCells_ops E
           (universe_toggle_cell E (click_row E ev) (click_col E ev) (universe s)))"
  by (simp_all add: canvas_click_def Let_def emit_fields drawGrid_fields drawCells_fields)

lemma canvas_click_fps: "fps (canvas_click E ev s) = fps s"
  by (simp add: canvas_click_def Let_def emit_fps draw_fps)

lemma play_fields:
  "universe (play N E now s) = universe_tick E (universe s)"
  "animationId (play N E now s) = Some (Suc (handle_counter s))"
  "callbacks (play N E now s) = callbacks s @ [Suc (handle_counter s)]"
  "handle_counter (play N E now s) = Suc (handle_counter s)"
  "fps (play N E now s) = fst (fps_render N now (fps s))"
  "log (play N E now s) =
     log s @ [ButtonText PauseGlyph, snd (fps_render N now (fps s)), UniverseTick]
       @ map Ctx (drawGrid_ops E)
       @ UniverseCells # map Ctx (drawCells_ops E (universe_tick E (universe s)))
       @ [RequestAnimationFrame (Suc (handle_counter s))]"
  by (simp_all add: play_def renderLoop_fields emit_fields emit_fps)

lemma pending_ok_step: "pending_ok s \<Longrightarrow> pending_ok (step N E s ev)"
proof (cases ev)
  case (AnimationFrame h now)
  assume ok: "pending_ok s"
  show ?thesis
  proof (cases "h \<in> set (callbacks s)")
    case True
    with ok have "removeAll h (callbacks s) = []"
      by (auto simp: pending_ok_def split: option.splits)
    with True AnimationFrame show ?thesis
      by (simp add: pending_ok_def renderLoop_fields)
  next
    case False
    with ok AnimationFrame show ?thesis by simp
  qed
next
  case (PlayPauseClick now)
  assume ok: "pending_ok s"
  with PlayPauseClick show ?thesis
    by (auto simp: pending_ok_def playPauseButton_click_def isPaused_def play_fields
          pause_fields split: option.splits)
next
  case (CanvasClick c)
  assume "pending_ok s"
  with CanvasClick show ?thesis
    by (simp add: pending_ok_def canvas_click_fields)
qed

lemma pending_ok_init: "pending_ok (init N E now0 now1)"
  by (simp add: init_def Let_def pending_ok_def play_fields drawGrid_fields drawCells_fields)

lemma run_snoc: "run N E s (evs @ [ev]) = step N E (run N E s evs) ev"
  by (simp add: run_def)

lemma pending_ok_run: "pending_ok s \<Longrightarrow> pending_ok (run N E s evs)"
  by (induction evs rule: rev_induct) (simp_all add: run_def pending_ok_step)

section \<open>The two versions\<close>

lemma renderLoop_part_000_fields:
  "universe (renderLoop_part_000 E s) = universe_tick E (universe s)"
  "animationId (renderLoop_part_000 E s) = Some (Suc (handle_counter s))"
  "callbacks (renderLoop_part_000 E s) = callbacks s @ [Suc (handle_counter s)]"
  "handle_counter (renderLoop_part_000 E s) = Suc (handle_counter s)"
  "log (renderLoop_part_000 E s) =
     log s @ UniverseTick # map Ctx (drawGrid_ops E)
       @ UniverseCells # map Ctx (drawCells_ops E (universe_tick E (universe s)))
       @ [RequestAnimationFrame (Suc (handle_counter s))]"
  by (simp_all add: renderLoop_part_000_def requestAnimationFrame_def Let_def emit_fields
        drawGrid_fields drawCells_fields split: prod.splits)

lemma erase_fps_fields:
  "universe (erase_fps s) = universe s"
  "animationId (erase_fps s) = animationId s"
  "callbacks (erase_fps s) = callbacks s"
  "handle_counter (erase_fps s) = handle_counter s"
  "log (erase_fps s) = filter (\<lambda>a. \<not> is_FpsText a) (log s)"
  by (simp_all add: erase_fps_def)

lemma fps_render_text: "is_FpsText (snd (fps_render N now this))"
  by (simp add: fps_render_def Let_def split_beta)

lemma filter_Ctx: "filter (\<lambda>a. \<not> is_FpsText a) (map Ctx ops) = map Ctx ops"
  by (induction ops) simp_all

lemma erase_renderLoop:
  "erase_fps (renderLoop N E now s) = renderLoop_part_000 E (erase_fps s)"
  by (rule page.equality)
     (simp_all add: erase_fps_fields renderLoop_fields renderLoop_part_000_fields
        fps_render_text filter_Ctx)

lemma erase_emit: "\<not> is_FpsText a \<Longrightarrow> erase_fps (emit [a] s) = emit [a] (erase_fps s)"
  by (rule page.equality) (simp_all add: erase_fps_fields emit_fields)

lemma erase_play: "erase_fps (play N E now s) = play_part_000 E (erase_fps s)"
  by (simp add: play_def play_part_000_def erase_renderLoop erase_emit)

lemma erase_pause: "erase_fps (pause s) = pause (erase_fps s)"
  by (rule page.equality) (simp_all add: erase_fps_fields pause_fields)

lemma erase_canvas_click:
  "erase_fps (canvas_click E ev s) = canvas_click E ev (erase_fps s)"
  by (rule page.equality) (simp_all add: erase_fps_fields canvas_click_fields filter_Ctx)

lemma erase_callbacks_update:
  "erase_fps (s\<lparr>callbacks := cs\<rparr>) = (erase_fps s)\<lparr>callbacks := cs\<rparr>"
  by (simp add: erase_fps_def)

lemma erase_step: "erase_fps (step N E s ev) = step_part_000 E (erase_fps s) ev"
proof (cases ev)
  case (AnimationFrame h now)
  then show ?thesis
    by (simp add: erase_renderLoop erase_callbacks_update erase_fps_fields)
next
  case (PlayPauseClick now)
  then show ?thesis
    by (simp add: playPauseButton_click_def playPauseButton_click_part_000_def isPaused_def
          erase_play erase_pause erase_fps_fields)
next
  case (CanvasClick c)
  then show ?thesis by (simp add: erase_canvas_click)
qed

lemma erase_run: "erase_fps (run N E s evs) = run_part_000 E (erase_fps s) evs"
  by (induction evs rule: rev_induct) (simp_all add: run_def run_part_000_def erase_step)

lemma erase_draw:
  "erase_fps (drawGrid E s) = drawGrid E (erase_fps s)"
  "erase_fps (drawCells E s) = drawCells E (erase_fps s)"
  by (rule page.equality, simp_all add: erase_fps_fields drawGrid_fields drawCells_fields filter_Ctx)+

lemma erase_init: "erase_fps (init N E now0 now1) = init_part_000 E"
  by (simp add: init_def init_part_000_def Let_def erase_play erase_draw) (simp add: erase_fps_def)

text \<open>
  Claim C10. The script with the timer and the script without it behave alike towards the
  universe and the canvas. For the same events from the start, forgetting the timer (its
  object and its \<open>FpsText\<close> entries in the log) in the state of \<^verbatim>\<open>www/index.js\<close>
  gives exactly the state of the other version: the same universe, the same
  \<^verbatim>\<open>animationId\<close> and pending callbacks, and the same log of engine calls, drawing
  operations, button captions and frame requests, in the same order. This holds step by
  step and for \<^verbatim>\<open>renderLoop\<close> itself; what \<^verbatim>\<open>fps.render()\<close> adds is one
  \<open>FpsText\<close> entry and a new timer object, and nothing else.
\<close>

theorem versions_equivalent:
  "erase_fps (run N E (init N E now0 now1) evs) = run_part_000 E (init_part_000 E) evs
   \<and> erase_fps (step N E s ev) = step_part_000 E (erase_fps s) ev
   \<and> erase_fps (renderLoop N E now s) = renderLoop_part_000 E (erase_fps s)
   \<and> is_FpsText (snd (fps_render N now (fps s)))
   \<and> erase_fps (emit [snd (fps_render N now (fps s))] (s\<lparr>fps := fst (fps_render N now (fps s))\<rparr>))
       = erase_fps s"
proof -
  have "erase_fps (emit [snd (fps_render N now (fps s))] (s\<lparr>fps := fst (fps_render N now (fps s))\<rparr>))
       = erase_fps s"
    by (simp add: erase_fps_def emit_def fps_render_text)
  then show ?thesis
    by (simp add: erase_run erase_init erase_step erase_renderLoop fps_render_text)
qed

section \<open>The timer's buffer\<close>

lemma fps_stats_foldl:
  "fps_stats N fs i (mn, mx, sm) =
     (foldl (\<lambda>m x. Math_min N x m) mn (drop i fs),
      foldl (\<lambda>m x. Math_max N x m) mx (drop i fs),
      foldl (num_add N) sm (drop i fs))"
proof (induction N fs i "(mn, mx, sm)" arbitrary: mn mx sm rule: fps_stats.induct)
  case (1 N fs i mn mx sm)
  show ?case
  proof (cases "i < length fs")
    case True
    then have d: "drop i fs = fs ! i # drop (Suc i) fs"
      by (simp add: Cons_nth_drop_Suc)
    from True "1.hyps" [OF True refl refl refl] show ?thesis
      by (subst fps_stats.simps) (simp add: d Let_def)
  next
    case False
    then show ?thesis by (subst fps_stats.simps) simp
  qed
qed

lemma fps_render_frames:
  "frames (fst (fps_render N now this)) =
     (if length (frames this) \<ge> 100
      then tl (frames this @ [fps_sample N now (lastFrameTimeStamp this)])
      else frames this @ [fps_sample N now (lastFrameTimeStamp this)])"
  by (simp add: fps_render_def Let_def split_beta)

lemma fps_render_last:
  "lastFrameTimeStamp (fst (fps_render N now this)) = now"
  by (simp add: fps_render_def Let_def split_beta)

lemma fps_render_length:
  "length (frames this) \<le> 100 \<Longrightarrow> length (frames (fst (fps_render N now this))) \<le> 100"
  by (simp add: fps_render_frames)

lemma fps_renders_snoc:
  "fps_renders N this (nows @ [now]) = fst (fps_render N now (fps_renders N this nows))"
  by (simp add: fps_renders_def)

lemma fps_renders_length:
  "length (frames (fps_renders N (fps_constructor now0) nows)) = min (length nows) 100"
proof (induction nows rule: rev_induct)
  case Nil
  show ?case by (simp add: fps_renders_def fps_constructor_def)
next
  case (snoc now nows)
  then show ?case
    by (simp add: fps_renders_snoc fps_render_frames min_def)
qed

lemma fps_render_text_eq:
  "snd (fps_render N now this) =
     (let fs = frames (fst (fps_render N now this)) in
      FpsText (Math_round N (fps_sample N now (lastFrameTimeStamp this)))
        (Math_round N (num_div N (foldl (num_add N) (num_of_nat N 0) fs)
                                 (num_of_nat N (length fs))))
        (Math_round N (foldl (\<lambda>m x. Math_min N x m) (Infinity N) fs))
        (Math_round N (foldl (\<lambda>m x. Math_max N x m) (num_neg N (Infinity N)) fs)))"
  by (simp add: fps_render_def Let_def fps_stats_foldl)

text \<open>
  Claim C8. After any number of \<^verbatim>\<open>fps.render()\<close> calls since construction the buffer
  \<^verbatim>\<open>frames\<close> holds at most 100 entries (exactly the smaller of 100 and the number of
  calls). One more call appends its sample and, when that makes 101, drops the oldest
  entry. The text it displays carries the rounded latest sample and the rounded mean,
  minimum and maximum taken over exactly the entries of the buffer as that call leaves
  it. This holds for every arithmetic on numbers.
\<close>

theorem fps_buffer_bounded:
  "length (frames (fps_renders N (fps_constructor now0) nows)) \<le> 100
   \<and> length (frames (fps_renders N (fps_constructor now0) nows)) = min (length nows) 100
   \<and> frames (fps_renders N (fps_constructor now0) (nows @ [now])) =
       drop (Suc (length (frames (fps_renders N (fps_constructor now0) nows))) - 100)
         (frames (fps_renders N (fps_constructor now0) nows)
            @ [fps_sample N now (lastFrameTimeStamp (fps_renders N (fps_constructor now0) nows))])
   \<and> snd (fps_render N now (fps_renders N (fps_constructor now0) nows)) =
       FpsText
         (Math_round N
            (fps_sample N now (lastFrameTimeStamp (fps_renders N (fps_constructor now0) nows))))
         (Math_round N
            (num_div N
               (foldl (num_add N) (num_of_nat N 0)
                  (frames (fps_renders N (fps_constructor now0) (nows @ [now]))))
               (num_of_nat N
                  (length (frames (fps_renders N (fps_constructor now0) (nows @ [now])))))))
         (Math_round N
            (foldl (\<lambda>m x. Math_min N x m) (Infinity N)
               (frames (fps_renders N (fps_constructor now0) (nows @ [now])))))
         (Math_round N
            (foldl (\<lambda>m x. Math_max N x m) (num_neg N (Infinity N))
               (frames (fps_renders N (fps_constructor now0) (nows @ [now])))))"
proof -
  let ?t = "fps_renders N (fps_constructor now0) nows"
  have len: "length (frames ?t) = min (length nows) 100"
    by (rule fps_renders_length)
  then have le: "length (frames ?t) \<le> 100" by simp
  have fr: "frames (fps_renders N (fps_constructor now0) (nows @ [now])) =
       drop (Suc (length (frames ?t)) - 100)
         (frames ?t @ [fps_sample N now (lastFrameTimeStamp ?t)])"
  proof (cases "length (frames ?t) = 100")
    case True
    then have "frames ?t \<noteq> []" by auto
    with True show ?thesis
      by (simp add: fps_renders_snoc fps_render_frames drop_Suc tl_append2)
  next
    case False
    with le have "length (frames ?t) < 100" by simp
    then show ?thesis
      by (simp add: fps_renders_snoc fps_render_frames)
  qed
  have tx: "snd (fps_render N now ?t) =
     (let fs = frames (fps_renders N (fps_constructor now0) (nows @ [now])) in
      FpsText (Math_round N (fps_sample N now (lastFrameTimeStamp ?t)))
        (Math_round N (num_div N (foldl (num_add N) (num_of_nat N 0) fs)
                                 (num_of_nat N (length fs))))
        (Math_round N (foldl (\<lambda>m x. Math_min N x m) (Infinity N) fs))
        (Math_round N (foldl (\<lambda>m x. Math_max N x m) (num_neg N (Infinity N)) fs)))"
    unfolding fps_renders_snoc by (rule fps_render_text_eq)
  from le len fr tx show ?thesis
    unfolding Let_def by blast
qed

section \<open>Counting in the log\<close>

lemma drawGrid_vertical_no_BeginPath: "BeginPath \<notin> set (drawGrid_vertical E i)"
proof (induction E i rule: drawGrid_vertical.induct)
  case (1 E i)
  then show ?case by (subst drawGrid_vertical.simps) simp
qed

lemma drawGrid_horizontal_no_BeginPath: "BeginPath \<notin> set (drawGrid_horizontal E j)"
proof (induction E j rule: drawGrid_horizontal.induct)
  case (1 E j)
  then show ?case by (subst drawGrid_horizontal.simps) simp
qed

lemma drawCells_cols_no_BeginPath: "BeginPath \<notin> set (drawCells_cols E cells row col)"
proof (induction E cells row col rule: drawCells_cols.induct)
  case (1 E cells row col)
  then show ?case by (subst drawCells_cols.simps) simp
qed

lemma drawCells_rows_no_BeginPath: "BeginPath \<notin> set (drawCells_rows E cells row)"
proof (induction E cells row rule: drawCells_rows.induct)
  case (1 E cells row)
  then show ?case
    by (subst drawCells_rows.simps) (simp add: drawCells_cols_no_BeginPath)
qed

lemma filter_absent: "a \<notin> set xs \<Longrightarrow> filter (\<lambda>b. b = a) xs = []"
  by (induction xs) auto

lemma count_action_simps:
  "count_action a [] = 0"
  "count_action a (b # acts) = (if b = a then 1 else 0) + count_action a acts"
  "count_action a (acts @ acts') = count_action a acts + count_action a acts'"
  by (simp_all add: count_action_def)

lemma count_action_map_Ctx:
  "count_action (Ctx op) (map Ctx ops) = length (filter (\<lambda>b. b = op) ops)"
  by (induction ops) (simp_all add: count_action_def)

lemma count_nonCtx_map_Ctx:
  "(\<And>op. a \<noteq> Ctx op) \<Longrightarrow> count_action a (map Ctx ops) = 0"
proof -
  assume "\<And>op. a \<noteq> Ctx op"
  then have "a \<notin> set (map Ctx ops)" by auto
  from filter_absent [OF this] show ?thesis by (simp add: count_action_def)
qed

lemma drawGrid_ops_BeginPath: "length (filter (\<lambda>b. b = BeginPath) (drawGrid_ops E)) = 1"
  by (simp add: drawGrid_ops_def filter_absent drawGrid_vertical_no_BeginPath
        drawGrid_horizontal_no_BeginPath)

lemma drawCells_ops_BeginPath: "length (filter (\<lambda>b. b = BeginPath) (drawCells_ops E u)) = 1"
  by (simp add: drawCells_ops_def filter_absent drawCells_rows_no_BeginPath)

section \<open>Rounding to doubles\<close>

lemma round_half_even_ge: "of_int k \<le> r \<Longrightarrow> k \<le> round_half_even r"
proof -
  assume "of_int k \<le> r"
  then have "k \<le> \<lfloor>r\<rfloor>" by (simp add: le_floor_iff)
  then show ?thesis by (simp add: round_half_even_def Let_def)
qed

lemma round_half_even_of_int [simp]: "round_half_even (of_int k) = k"
  by (simp add: round_half_even_def)

lemma round_half_even_nonneg: "0 \<le> r \<Longrightarrow> 0 \<le> round_half_even r"
  using round_half_even_ge [of 0 r] by simp

lemma binary64_not_NaN [simp]: "binary64 r \<noteq> NaN"
  by (simp add: binary64_def Let_def)

lemma powr_powi: "2 powr (real_of_int e) = (2::real) powi e"
  "2 powr (real_of_int e + 1) = (2::real) powi (e + 1)"
  using powr_real_of_int' [of 2 e] powr_real_of_int' [of 2 "e + 1"] by simp_all

lemma floor_log2_bounds:
  assumes "0 < a"
  shows "2 powi \<lfloor>Transcendental.log 2 a\<rfloor> \<le> a" and "a < 2 powi (\<lfloor>Transcendental.log 2 a\<rfloor> + 1)"
proof -
  from assms have "2 powr (of_int \<lfloor>Transcendental.log 2 a\<rfloor>) \<le> a \<and> a < 2 powr (of_int (\<lfloor>Transcendental.log 2 a\<rfloor> + 1))"
    using floor_log_eq_powr_iff [of a 2 "\<lfloor>Transcendental.log 2 a\<rfloor>"] by simp
  then show "2 powi \<lfloor>Transcendental.log 2 a\<rfloor> \<le> a" and "a < 2 powi (\<lfloor>Transcendental.log 2 a\<rfloor> + 1)"
    by (simp_all add: powr_powi)
qed

lemma floor_log2_eqI:
  assumes "2 powi e \<le> a" and "a < 2 powi (e + 1)"
  shows "\<lfloor>Transcendental.log 2 a\<rfloor> = e"
proof -
  have "(0::real) < 2 powi e" by simp
  with assms(1) have pos: "0 < a" by linarith
  from assms have "2 powr (of_int e) \<le> a \<and> a < 2 powr (of_int (e + 1))"
    by (simp add: powr_powi)
  then show ?thesis
    using floor_log_eq_powr_iff [OF pos, of 2 e] by simp
qed

lemma binary64_eval:
  assumes "2 powi e \<le> a" and "a < 2 powi (e + 1)" and "- 1022 \<le> e"
    and "round_half_even (a / 2 powi (e - 52)) = m"
    and "of_int m * 2 powi (e - 52) < (2::real) ^ 1024"
  shows "binary64 a = Fin (of_int m * 2 powi (e - 52))"
proof -
  have "(0::real) < 2 powi e" by simp
  with assms(1) have pos: "0 < a" by linarith
  from floor_log2_eqI [OF assms(1,2)] pos have "\<lfloor>Transcendental.log 2 \<bar>a\<bar>\<rfloor> = e" by simp
  with assms(3) have "max \<lfloor>Transcendental.log 2 \<bar>a\<bar>\<rfloor> (- 1022) = e" by simp
  with pos assms(4,5) show ?thesis
    by (simp add: binary64_def Let_def)
qed

lemma binary64_minus: "binary64 (- r) = xneg (binary64 r)"
  by (simp add: binary64_def Let_def sgn_if)

lemma ulp_inv:
  assumes "e \<le> 52"
  shows "(2::real) powi (e - 52) * 2 ^ nat (52 - e) = 1"
proof -
  from assms have "e - 52 = - int (nat (52 - e))" by simp
  then have "(2::real) powi (e - 52) = inverse (2 ^ nat (52 - e))"
    by (simp only: power_int_minus power_int_of_nat)
  then show ?thesis by simp
qed

lemma powi_split: "(2::real) powi e = 2 powi 52 * 2 powi (e - 52)"
  using power_int_add [of "2::real" 52 "e - 52"] by simp

lemma of_int_less_2p53:
  assumes "k < 2 ^ 53"
  shows "real_of_int k < 2 ^ 53"
proof -
  from assms have "real_of_int k < real_of_int (2 ^ 53)"
    by (simp only: of_int_less_iff)
  then show ?thesis by simp
qed

lemma ulp_scale:
  fixes x :: real
  assumes "e \<le> 52"
  shows "x / 2 powi (e - 52) = x * 2 ^ nat (52 - e)"
proof -
  have "x / 2 powi (e - 52) = x * (2 powi (e - 52) * 2 ^ nat (52 - e)) / 2 powi (e - 52)"
    by (simp only: ulp_inv [OF assms] mult_1_right)
  also have "\<dots> = x * 2 ^ nat (52 - e)"
    by simp
  finally show ?thesis .
qed

lemma binary64_result:
  assumes "0 < r"
  shows "binary64 r = PosInf \<or>
    binary64 r = Fin (of_int (round_half_even (r / 2 powi (max \<lfloor>Transcendental.log 2 r\<rfloor> (- 1022) - 52)))
                        * 2 powi (max \<lfloor>Transcendental.log 2 r\<rfloor> (- 1022) - 52))"
  using assms by (simp add: binary64_def Let_def)

lemma binary64_nonneg:
  assumes "0 \<le> r"
  shows "xle (Fin 0) (binary64 r)"
proof (cases "r = 0")
  case True
  then show ?thesis by (simp add: binary64_def)
next
  case False
  with assms have pos: "0 < r" by simp
  let ?u = "(2::real) powi (max \<lfloor>Transcendental.log 2 r\<rfloor> (- 1022) - 52)"
  have u: "0 < ?u" by simp
  with pos have "0 \<le> r / ?u" by simp
  then have "0 \<le> round_half_even (r / ?u)" by (rule round_half_even_nonneg)
  with u have "0 \<le> of_int (round_half_even (r / ?u)) * ?u" by simp
  with binary64_result [OF pos] show ?thesis by auto
qed

lemma binary64_ge_int:
  assumes "0 < k" and "k < 2 ^ 53" and "of_int k \<le> r"
  shows "xle (Fin (of_int k)) (binary64 r)"
proof -
  from assms have r1: "1 \<le> r" by linarith
  then have pos: "0 < r" by simp
  let ?e = "\<lfloor>Transcendental.log 2 r\<rfloor>"
  have e0: "0 \<le> ?e"
    using r1 by simp
  then have m: "max ?e (- 1022) = ?e" by simp
  let ?u = "(2::real) powi (?e - 52)"
  have u: "0 < ?u" by simp
  have "of_int k \<le> of_int (round_half_even (r / ?u)) * ?u"
  proof (cases "?e \<le> 52")
    case True
    have "of_int (k * 2 ^ nat (52 - ?e)) = of_int k / ?u"
      by (simp add: ulp_scale [OF True])
    also from assms(3) u have "\<dots> \<le> r / ?u" by (simp add: divide_right_mono)
    finally have "k * 2 ^ nat (52 - ?e) \<le> round_half_even (r / ?u)"
      by (rule round_half_even_ge)
    then have "real_of_int (k * 2 ^ nat (52 - ?e)) \<le> real_of_int (round_half_even (r / ?u))"
      by (simp only: of_int_le_iff)
    then have "real_of_int (k * 2 ^ nat (52 - ?e)) * ?u
                 \<le> real_of_int (round_half_even (r / ?u)) * ?u"
      using u by (intro mult_right_mono) simp_all
    moreover have "real_of_int (k * 2 ^ nat (52 - ?e)) * ?u = of_int k * (?u * 2 ^ nat (52 - ?e))"
      by simp
    ultimately show ?thesis
      by (simp only: ulp_inv [OF True] mult_1_right)
  next
    case False
    then have big: "53 \<le> ?e" by simp
    have d: "(2::real) powi ?e = 2 powi 52 * ?u"
      by (rule powi_split)
    have "real_of_int (2 ^ 52) = 2 powi ?e / ?u"
      unfolding d by simp
    also from floor_log2_bounds(1) [OF pos] u have "\<dots> \<le> r / ?u"
      by (simp add: divide_right_mono)
    finally have "2 ^ 52 \<le> round_half_even (r / ?u)"
      by (rule round_half_even_ge)
    then have "real_of_int (2 ^ 52) \<le> real_of_int (round_half_even (r / ?u))"
      by (simp only: of_int_le_iff)
    then have "real_of_int (2 ^ 52) * ?u \<le> real_of_int (round_half_even (r / ?u)) * ?u"
      using u by (intro mult_right_mono) simp_all
    moreover have "real_of_int (2 ^ 52) * ?u = 2 powi ?e"
      unfolding d by simp
    moreover from big have "(2::real) powi 53 \<le> 2 powi ?e"
      by (intro power_int_increasing) simp_all
    moreover from of_int_less_2p53 [OF assms(2)] have "real_of_int k < 2 powi 53"
      by simp
    ultimately show ?thesis by linarith
  qed
  with binary64_result [OF pos] show ?thesis by (auto simp: m)
qed

lemma binary64_of_int_pos:
  assumes "0 < k" and "k < 2 ^ 53"
  shows "binary64 (of_int k) = Fin (of_int k)"
proof -
  let ?r = "real_of_int k"
  from assms have r1: "1 \<le> ?r" by simp
  then have pos: "0 < ?r" by simp
  let ?e = "\<lfloor>Transcendental.log 2 ?r\<rfloor>"
  have e0: "0 \<le> ?e"
    using r1 by simp
  then have m: "max ?e (- 1022) = ?e" by simp
  have e52: "?e \<le> 52"
  proof (rule ccontr)
    assume "\<not> ?e \<le> 52"
    then have "53 \<le> ?e" by simp
    then have "(2::real) powi 53 \<le> 2 powi ?e"
      by (intro power_int_increasing) simp_all
    moreover from of_int_less_2p53 [OF assms(2)] have "?r < 2 powi 53"
      by simp
    ultimately show False using floor_log2_bounds(1) [OF pos] by linarith
  qed
  let ?u = "(2::real) powi (?e - 52)"
  have u: "0 < ?u" by simp
  have q: "?r / ?u = of_int (k * 2 ^ nat (52 - ?e))"
    by (simp add: ulp_scale [OF e52])
  have y: "of_int (round_half_even (?r / ?u)) * ?u = ?r"
  proof -
    have "real_of_int (k * 2 ^ nat (52 - ?e)) * ?u = ?r * (?u * 2 ^ nat (52 - ?e))"
      by simp
    then show ?thesis
      unfolding q round_half_even_of_int by (simp only: ulp_inv [OF e52] mult_1_right)
  qed
  from assms(2) have "?r < 2 ^ 53"
    by (rule of_int_less_2p53)
  also have "\<dots> \<le> (2::real) ^ 1024" by (rule power_increasing) simp_all
  finally have "\<not> 2 ^ 1024 \<le> ?r" by simp
  with pos y show ?thesis
    by (simp add: binary64_def Let_def m)
qed

lemma binary64_of_int:
  assumes "\<bar>k\<bar> < 2 ^ 53"
  shows "binary64 (of_int k) = Fin (of_int k)"
proof -
  consider "k = 0" | "0 < k" | "k < 0" by linarith
  then show ?thesis
  proof cases
    case 1
    then show ?thesis by (simp add: binary64_def)
  next
    case 2
    with assms show ?thesis by (simp add: binary64_of_int_pos)
  next
    case 3
    with assms have "binary64 (of_int (- k)) = Fin (of_int (- k))"
      by (intro binary64_of_int_pos) simp_all
    then have "xneg (binary64 (of_int k)) = Fin (- of_int k)"
      by (simp add: binary64_minus)
    then show ?thesis by (cases "binary64 (real_of_int k)") simp_all
  qed
qed


lemma binary64_zero [simp]: "binary64 0 = Fin 0"
  by (simp add: binary64_def)

lemma binary64_one [simp]: "binary64 1 = Fin 1"
  using binary64_of_int [of 1] by simp

lemma binary64_numeral:
  "numeral n < (2::int) ^ 53 \<Longrightarrow> binary64 (numeral n) = Fin (numeral n)"
  using binary64_of_int [of "numeral n"] by simp

lemma binary64_neg_numeral:
  "numeral n < (2::int) ^ 53 \<Longrightarrow> binary64 (- numeral n) = Fin (- numeral n)"
  using binary64_of_int [of "- numeral n"] by simp

lemma binary64_neg_one [simp]: "binary64 (- 1) = Fin (- 1)"
  using binary64_of_int [of "- 1"] by simp

lemma binary64_of_nat:
  assumes "n < 2 ^ 53"
  shows "binary64 (real n) = Fin (real n)"
proof -
  from assms have "int n < 2 ^ 53"
    by (metis of_nat_less_iff of_nat_numeral of_nat_power)
  then have "\<bar>int n\<bar> < 2 ^ 53" by simp
  from binary64_of_int [OF this] show ?thesis by simp
qed

lemma js_Fin:
  "js_add (Fin a) (Fin b) = binary64 (a + b)"
  "js_sub (Fin a) (Fin b) = binary64 (a - b)"
  "js_mul (Fin a) (Fin b) = binary64 (a * b)"
  "b \<noteq> 0 \<Longrightarrow> js_div (Fin a) (Fin b) = binary64 (a / b)"
  by (simp_all add: js_add_def js_sub_def js_mul_def js_div_def)

lemma rounded_NaN [simp]: "rounded a = NaN \<longleftrightarrow> a = NaN"
  by (cases a) simp_all

lemma cell_pitch: "js_add (Fin (real CELL_SIZE)) (Fin 1) = Fin 6"
  by (simp add: js_Fin CELL_SIZE_def binary64_numeral)

lemma binary64_four_thirds:
  "binary64 (4 / 3) = Fin (6004799503160661 / 4503599627370496)"
proof -
  have "binary64 (4 / 3) = Fin (of_int 6004799503160661 * 2 powi (0 - 52))"
    by (rule binary64_eval) (simp_all add: round_half_even_def Let_def)
  then show ?thesis by (simp add: power_int_minus field_simps)
qed

section \<open>Order and minimum on numbers\<close>

lemma xle_trans: "xle a b \<Longrightarrow> xle b c \<Longrightarrow> xle a c"
  by (cases a; cases b; cases c) simp_all

lemma xle_xneg: "xle a b \<Longrightarrow> xle (xneg b) (xneg a)"
  by (cases a; cases b) simp_all

lemma xmin_absorb1: "xle a b \<Longrightarrow> xmin a b = a"
  by (cases a; cases b) simp_all

lemma xmin_absorb2: "xle b a \<Longrightarrow> xmin a b = b"
  by (cases a; cases b) simp_all

lemma xmin_NaN: "xmin a b = NaN \<longleftrightarrow> a = NaN \<or> b = NaN"
  by (cases a; cases b) simp_all

lemma xmin_le2: "a \<noteq> NaN \<Longrightarrow> b \<noteq> NaN \<Longrightarrow> xle (xmin a b) b"
  by (cases a; cases b) simp_all

lemma xfloor_NaN [simp]: "xfloor a = NaN \<longleftrightarrow> a = NaN"
  by (cases a) simp_all

lemma xfloor_ge_int: "xle (Fin (of_int k)) a \<Longrightarrow> xle (Fin (of_int k)) (xfloor a)"
  by (cases a) (simp_all add: le_floor_iff)

lemma xfloor_ge_integral:
  assumes "xle b q"
    and "b = PosInf \<or> b = NegInf \<or> (\<exists>j. b = Fin (of_int j))"
  shows "xle b (xfloor q)"
  using assms
proof (elim disjE exE)
  assume "b = PosInf"
  with assms(1) show ?thesis by (cases q) simp_all
next
  assume "b = NegInf"
  with assms(1) show ?thesis by (cases q) simp_all
next
  fix j assume "b = Fin (of_int j)"
  with assms(1) show ?thesis by (simp add: xfloor_ge_int)
qed

lemma xfloor_le_int: "xle a (Fin (of_int k)) \<Longrightarrow> xle (xfloor a) (Fin (of_int k))"
  by (cases a) (auto intro: floor_mono [of _ "real_of_int k", simplified])

lemma js_div_six_NaN: "js_div a (Fin 6) = NaN \<longleftrightarrow> a = NaN"
  by (cases a) (simp_all add: js_div_def)

lemma binary64_le_neg_one:
  assumes "r \<le> - 1"
  shows "xle (binary64 r) (Fin (- 1))"
proof -
  from assms have "real_of_int 1 \<le> - r" by simp
  then have "xle (Fin (real_of_int 1)) (binary64 (- r))"
    by (intro binary64_ge_int) simp_all
  then have "xle (xneg (binary64 (- r))) (Fin (- 1))"
    by (cases "binary64 (- r)") simp_all
  moreover have "binary64 r = xneg (binary64 (- r))"
    using binary64_minus [of "- r"] by simp
  ultimately show ?thesis by simp
qed

section \<open>Rounding is monotone, and integers round to integers\<close>

lemma round_half_even_cases:
  "round_half_even r = \<lfloor>r\<rfloor> \<or> round_half_even r = \<lfloor>r\<rfloor> + 1"
  by (simp add: round_half_even_def Let_def)

lemma round_half_even_le: "r \<le> of_int k \<Longrightarrow> round_half_even r \<le> k"
proof -
  assume r: "r \<le> of_int k"
  show ?thesis
  proof (cases "r = of_int k")
    case True
    then show ?thesis by simp
  next
    case False
    with r have "r < of_int k" by simp
    then have "\<lfloor>r\<rfloor> < k" by (simp add: floor_less_iff)
    with round_half_even_cases [of r] show ?thesis by auto
  qed
qed

lemma round_half_even_mono:
  assumes "a \<le> b"
  shows "round_half_even a \<le> round_half_even b"
proof (cases "\<lfloor>a\<rfloor> = \<lfloor>b\<rfloor>")
  case True
  with assms show ?thesis
    by (auto simp: round_half_even_def Let_def)
next
  case False
  with assms floor_mono [of a b] have "\<lfloor>a\<rfloor> + 1 \<le> \<lfloor>b\<rfloor>" by simp
  moreover from round_half_even_cases [of a] have "round_half_even a \<le> \<lfloor>a\<rfloor> + 1" by auto
  moreover from round_half_even_cases [of b] have "\<lfloor>b\<rfloor> \<le> round_half_even b" by auto
  ultimately show ?thesis by linarith
qed

lemma powi_split53: "(2::real) powi (e + 1) = 2 powi 53 * 2 powi (e - 52)"
proof -
  have "(2::real) powi (e + 1) = 2 powi (53 + (e - 52))"
    by (rule arg_cong [where f = "power_int 2"]) simp
  also have "\<dots> = 2 powi 53 * 2 powi (e - 52)"
    by (rule power_int_add) simp
  finally show ?thesis .
qed

lemma binary64_pos:
  assumes "0 < r"
  shows "binary64 r = (if 2 ^ 1024 \<le> magnitude64 r then PosInf else Fin (magnitude64 r))"
  using assms by (simp add: binary64_def Let_def magnitude64_def)

lemma magnitude64_mono:
  assumes "0 < a" and "a \<le> b"
  shows "magnitude64 a \<le> magnitude64 b"
proof -
  from assms have posb: "0 < b" by simp
  let ?ea = "max \<lfloor>Transcendental.log 2 a\<rfloor> (- 1022)"
  let ?eb = "max \<lfloor>Transcendental.log 2 b\<rfloor> (- 1022)"
  let ?ua = "(2::real) powi (?ea - 52)"
  let ?ub = "(2::real) powi (?eb - 52)"
  have ua: "0 < ?ua" and ub: "0 < ?ub" by simp_all
  from assms have "Transcendental.log 2 a \<le> Transcendental.log 2 b" by simp
  then have "\<lfloor>Transcendental.log 2 a\<rfloor> \<le> \<lfloor>Transcendental.log 2 b\<rfloor>" by (rule floor_mono)
  then have le: "?ea \<le> ?eb" by simp
  show ?thesis
  proof (cases "?ea = ?eb")
    case True
    from assms(2) ub have "a / ?ub \<le> b / ?ub" by (simp add: divide_right_mono)
    then have "round_half_even (a / ?ub) \<le> round_half_even (b / ?ub)"
      by (rule round_half_even_mono)
    then have "real_of_int (round_half_even (a / ?ub)) \<le> real_of_int (round_half_even (b / ?ub))"
      by (simp only: of_int_le_iff)
    then have "real_of_int (round_half_even (a / ?ub)) * ?ub
                 \<le> real_of_int (round_half_even (b / ?ub)) * ?ub"
      using ub by (intro mult_right_mono) simp_all
    then show ?thesis
      unfolding magnitude64_def True .
  next
    case False
    with le have lt: "?ea + 1 \<le> ?eb" by simp
    then have eb: "?eb = \<lfloor>Transcendental.log 2 b\<rfloor>" by linarith
    have "a < 2 powi (\<lfloor>Transcendental.log 2 a\<rfloor> + 1)"
      by (rule floor_log2_bounds(2) [OF assms(1)])
    also have "\<dots> \<le> 2 powi (?ea + 1)"
      by (intro power_int_increasing) simp_all
    finally have a_lt: "a < 2 powi (?ea + 1)" .
    have s: "(2::real) powi (?ea + 1) = 2 powi 53 * ?ua"
      by (rule powi_split53)
    have "a / ?ua \<le> 2 powi (?ea + 1) / ?ua"
      using a_lt ua by (intro divide_right_mono) simp_all
    also have "\<dots> = real_of_int (2 ^ 53)"
      unfolding s by simp
    finally have "round_half_even (a / ?ua) \<le> 2 ^ 53"
      by (rule round_half_even_le)
    then have "real_of_int (round_half_even (a / ?ua)) \<le> real_of_int (2 ^ 53)"
      by (simp only: of_int_le_iff)
    then have "real_of_int (round_half_even (a / ?ua)) * ?ua \<le> real_of_int (2 ^ 53) * ?ua"
      using ua by (intro mult_right_mono) simp_all
    also have "real_of_int (2 ^ 53) * ?ua = 2 powi (?ea + 1)"
      unfolding s by simp
    finally have 1: "magnitude64 a \<le> 2 powi (?ea + 1)"
      unfolding magnitude64_def .
    have 2: "(2::real) powi (?ea + 1) \<le> 2 powi ?eb"
      using lt by (intro power_int_increasing) simp_all
    have d: "(2::real) powi ?eb = 2 powi 52 * ?ub"
      by (rule powi_split)
    have "real_of_int (2 ^ 52) = 2 powi ?eb / ?ub"
      unfolding d by simp
    also have "\<dots> \<le> b / ?ub"
    proof -
      have "2 powi ?eb \<le> b"
        using floor_log2_bounds(1) [OF posb] by (simp only: eb)
      then show ?thesis
        using ub by (intro divide_right_mono) simp_all
    qed
    finally have "2 ^ 52 \<le> round_half_even (b / ?ub)"
      by (rule round_half_even_ge)
    then have "real_of_int (2 ^ 52) \<le> real_of_int (round_half_even (b / ?ub))"
      by (simp only: of_int_le_iff)
    then have A: "real_of_int (2 ^ 52) * ?ub \<le> real_of_int (round_half_even (b / ?ub)) * ?ub"
      using ub by (intro mult_right_mono) simp_all
    have B: "real_of_int (2 ^ 52) * ?ub = 2 powi ?eb"
      unfolding d by simp
    have 3: "2 powi ?eb \<le> magnitude64 b"
      unfolding magnitude64_def by (rule A [unfolded B])
    from 1 2 3 show ?thesis by linarith
  qed
qed

lemma binary64_mono_pos:
  assumes "0 < a" and "a \<le> b"
  shows "xle (binary64 a) (binary64 b)"
proof -
  from assms have "0 < b" by simp
  with assms magnitude64_mono [OF assms] show ?thesis
    by (simp add: binary64_pos)
qed

lemma binary64_nonpos:
  assumes "r \<le> 0"
  shows "xle (binary64 r) (Fin 0)"
proof -
  from assms have "0 \<le> - r" by simp
  from xle_xneg [OF binary64_nonneg [OF this]] show ?thesis
    by (simp add: binary64_minus)
       (cases "binary64 r"; simp)
qed

lemma binary64_mono:
  assumes "a \<le> b"
  shows "xle (binary64 a) (binary64 b)"
proof -
  consider "0 < a" | "a \<le> 0" "0 \<le> b" | "b < 0" using assms by linarith
  then show ?thesis
  proof cases
    case 1
    from binary64_mono_pos [OF this assms] show ?thesis .
  next
    case 2
    from xle_trans [OF binary64_nonpos [OF 2(1)] binary64_nonneg [OF 2(2)]] show ?thesis .
  next
    case 3
    with assms have "0 < - b" "- b \<le> - a" by simp_all
    from xle_xneg [OF binary64_mono_pos [OF this]] show ?thesis
      by (simp add: binary64_minus)
         (cases "binary64 a"; cases "binary64 b"; simp)
  qed
qed

lemma binary64_of_int_integral_pos:
  assumes "0 < k"
  shows "binary64 (of_int k) = PosInf \<or> (\<exists>j. binary64 (of_int k) = Fin (of_int j))"
proof (cases "k < 2 ^ 53")
  case True
  with assms binary64_of_int_pos [of k] show ?thesis by blast
next
  case False
  let ?r = "real_of_int k"
  from assms have pos: "0 < ?r" by simp
  from False have "(2::int) ^ 53 \<le> k" by simp
  then have "real_of_int (2 ^ 53) \<le> ?r" by (simp only: of_int_le_iff)
  then have big: "2 powi 53 \<le> ?r" by simp
  let ?e = "\<lfloor>Transcendental.log 2 ?r\<rfloor>"
  have e: "53 \<le> ?e"
  proof (rule ccontr)
    assume "\<not> 53 \<le> ?e"
    then have "?e + 1 \<le> 53" by linarith
    then have "(2::real) powi (?e + 1) \<le> 2 powi 53"
      by (intro power_int_increasing) simp_all
    with floor_log2_bounds(2) [OF pos] big show False by linarith
  qed
  then have m: "max ?e (- 1022) = ?e" by linarith
  from e have "(2::real) powi (?e - 52) = 2 ^ nat (?e - 52)"
    by (simp add: power_int_def)
  then have u: "(2::real) powi (?e - 52) = real_of_int (2 ^ nat (?e - 52))"
    by simp
  define j where "j = round_half_even (?r / 2 powi (?e - 52)) * 2 ^ nat (?e - 52)"
  have "magnitude64 ?r = real_of_int j"
    unfolding magnitude64_def m j_def by (simp only: u of_int_mult)
  with binary64_pos [OF pos]
  have "binary64 ?r = PosInf \<or> binary64 ?r = Fin (real_of_int j)"
    by (cases "2 ^ 1024 \<le> magnitude64 ?r") (simp_all only: if_True if_False simp_thms)
  then show ?thesis by blast
qed

lemma binary64_of_int_integral:
  "binary64 (of_int k) = PosInf \<or> binary64 (of_int k) = NegInf
   \<or> (\<exists>j. binary64 (of_int k) = Fin (of_int j))"
proof -
  consider "k = 0" | "0 < k" | "k < 0" by linarith
  then show ?thesis
  proof cases
    case 1
    then have "binary64 (of_int k) = Fin (of_int 0)" by simp
    then show ?thesis by blast
  next
    case 2
    with binary64_of_int_integral_pos [of k] show ?thesis by blast
  next
    case 3
    then have "0 < - k" by simp
    from binary64_of_int_integral_pos [OF this]
    have "xneg (binary64 (of_int k)) = PosInf
      \<or> (\<exists>j. xneg (binary64 (of_int k)) = Fin (of_int j))"
      by (simp add: binary64_minus)
    then show ?thesis
    proof
      assume "xneg (binary64 (of_int k)) = PosInf"
      then have "binary64 (of_int k) = NegInf"
        by (cases "binary64 (real_of_int k)") simp_all
      then show ?thesis by simp
    next
      assume "\<exists>j. xneg (binary64 (of_int k)) = Fin (of_int j)"
      then obtain j where "xneg (binary64 (of_int k)) = Fin (of_int j)" ..
      then have "binary64 (of_int k) = Fin (of_int (- j))"
        by (cases "binary64 (real_of_int k)") simp_all
      then show ?thesis by blast
    qed
  qed
qed

section \<open>The example instances\<close>

lemma example_engine_dims:
  "width (example_engine w h) = w" "height (example_engine w h) = h"
  by (simp_all add: width_def height_def example_engine_def)

lemma example_click_cell:
  "click_row (example_engine 4 4) (example_click (example_engine 4 4)) = Fin 1"
  "click_col (example_engine 4 4) (example_click (example_engine 4 4)) = Fin 3"
  by (simp_all add: click_row_def click_col_def canvasTop_def canvasLeft_def scaleX_def
        scaleY_def example_click_def canvas_height_def canvas_width_def example_engine_dims
        CELL_SIZE_def js_Fin binary64_numeral binary64_four_thirds)

lemma example_paused_isPaused: "isPaused example_paused"
  by (simp add: example_paused_def isPaused_def pause_fields)

section \<open>Cells and their colours\<close>

text \<open>
  What \<^verbatim>\<open>drawCells\<close> sends for one cell: for every row below \<open>height\<close> and column
  below \<open>width\<close>, the fill colour and then the cell's rectangle, at positions
  \<open>2 * idx + 1\<close> and \<open>2 * idx + 2\<close> with \<open>idx = row * width + col\<close>. The colour is
  \<open>ALIVE_COLOR\<close> exactly when the cell's byte \<open>idx div 8\<close> lies inside the array laid
  over the engine's memory and bit \<open>idx mod 8\<close> of that byte is set.
\<close>

lemma drawCells_ops_colour:
  assumes "row < height E" and "col < width E"
  shows "drawCells_ops E u ! (2 * getIndex E row col + 1) =
           SetFillStyle (if bitIsSet (getIndex E row col) (cells_view E u)
                         then ALIVE_COLOR else DEAD_COLOR)
    \<and> drawCells_ops E u ! (2 * getIndex E row col + 2) =
           FillRect (col * (CELL_SIZE + 1) + 1) (row * (CELL_SIZE + 1) + 1) CELL_SIZE CELL_SIZE
    \<and> ALIVE_COLOR \<noteq> DEAD_COLOR
    \<and> getIndex E row col = row * width E + col
    \<and> bitIsSet (getIndex E row col) (cells_view E u) =
         (ToInt32 (arr_get (cells_view E u) (getIndex E row col div 8))
            AND push_bit (getIndex E row col mod 8) 1 = push_bit (getIndex E row col mod 8) 1)
    \<and> bitIsSet (getIndex E row col) (cells_view E u) =
         (getIndex E row col div 8 < arr_length (cells_view E u)
          \<and> bit (memory_buffer E u (universe_cells E u + getIndex E row col div 8))
                (getIndex E row col mod 8))"
proof -
  from drawCells_rows_nth [of 0 row E col "cells_view E u"] assms
  have "drawCells_rows E (cells_view E u) 0 ! (2 * getIndex E row col) =
           SetFillStyle (if bitIsSet (getIndex E row col) (cells_view E u)
                         then ALIVE_COLOR else DEAD_COLOR)"
    and "drawCells_rows E (cells_view E u) 0 ! (2 * getIndex E row col + 1) =
           FillRect (col * (CELL_SIZE + 1) + 1) (row * (CELL_SIZE + 1) + 1) CELL_SIZE CELL_SIZE"
    by (simp_all add: getIndex_def)
  moreover have "2 * getIndex E row col + 1 < length (drawCells_rows E (cells_view E u) 0)"
  proof -
    from assms have "row * width E + col < Suc row * width E" by simp
    also from assms have "\<dots> \<le> height E * width E"
      by (intro mult_le_mono1) simp
    finally show ?thesis
      by (simp add: drawCells_rows_length getIndex_def mult.commute)
  qed
  ultimately have 1: "drawCells_ops E u ! (2 * getIndex E row col + 1) =
           SetFillStyle (if bitIsSet (getIndex E row col) (cells_view E u)
                         then ALIVE_COLOR else DEAD_COLOR)"
    and 2: "drawCells_ops E u ! (2 * getIndex E row col + 2) =
           FillRect (col * (CELL_SIZE + 1) + 1) (row * (CELL_SIZE + 1) + 1) CELL_SIZE CELL_SIZE"
    by (simp_all add: drawCells_ops_def nth_append)
  have 3: "ALIVE_COLOR \<noteq> DEAD_COLOR"
    by (simp add: ALIVE_COLOR_def DEAD_COLOR_def)
  have 4: "bitIsSet (getIndex E row col) (cells_view E u) =
         (ToInt32 (arr_get (cells_view E u) (getIndex E row col div 8))
            AND push_bit (getIndex E row col mod 8) 1 = push_bit (getIndex E row col mod 8) 1)"
    by (simp add: bitIsSet_def Let_def)
  have 5: "bitIsSet (getIndex E row col) (cells_view E u) =
         (getIndex E row col div 8 < arr_length (cells_view E u)
          \<and> bit (memory_buffer E u (universe_cells E u + getIndex E row col div 8))
                (getIndex E row col mod 8))"
    by (simp add: bitIsSet_iff arr_get_def cells_view_def)
  from 1 2 3 4 5 show ?thesis by (simp add: getIndex_def)
qed

text \<open>When the array reaches a cell's byte: always, if the number of cells is a multiple of 8.\<close>

lemma cells_view_covers:
  "n div 8 < arr_length (cells_view E u) \<longleftrightarrow> n < 8 * (width E * height E div 8)"
  by (simp add: cells_view_def div_less_iff_less_mult mult.commute)

lemma cells_view_covers_all:
  assumes "8 dvd width E * height E" and "n < width E * height E"
  shows "n div 8 < arr_length (cells_view E u)"
proof -
  from assms(1) have "8 * (width E * height E div 8) = width E * height E"
    by simp
  with assms(2) show ?thesis
    by (simp only: cells_view_covers)
qed

text \<open>
  Claim C4, at a universe of 3 by 3 cells whose last cell is alive. Nine cells make an
  array of \<open>9 div 8 = 1\<close> byte, cell (2, 2) has index 8 and its bit lies in byte 1: the
  read is beyond the array and yields \<^verbatim>\<open>undefined\<close>, and the cell is painted dead although
  its bit is set in the engine's memory. No exception is raised.
\<close>

theorem cells_view_too_short:
  "width (example_engine 3 3) = 3 \<and> height (example_engine 3 3) = 3
   \<and> getIndex (example_engine 3 3) 2 2 = 8
   \<and> arr_length (cells_view (example_engine 3 3) [0, 1]) = 1
   \<and> arr_get (cells_view (example_engine 3 3) [0, 1]) (8 div 8) = None
   \<and> bit (memory_buffer (example_engine 3 3) [0, 1]
            (universe_cells (example_engine 3 3) [0, 1] + 8 div 8)) (8 mod 8)
   \<and> \<not> bitIsSet 8 (cells_view (example_engine 3 3) [0, 1])
   \<and> drawCells_ops (example_engine 3 3) [0, 1] ! 17 = SetFillStyle DEAD_COLOR"
proof -
  have d: "width (example_engine 3 3) = 3" "height (example_engine 3 3) = 3"
    by (simp_all add: example_engine_dims)
  have i: "getIndex (example_engine 3 3) 2 2 = 8"
    by (simp add: getIndex_def d)
  have l: "arr_length (cells_view (example_engine 3 3) [0, 1]) = 1"
    by (simp add: cells_view_def d)
  have g: "arr_get (cells_view (example_engine 3 3) [0, 1]) (8 div 8) = None"
    by (simp add: arr_get_def l)
  have m: "bit (memory_buffer (example_engine 3 3) [0, 1]
            (universe_cells (example_engine 3 3) [0, 1] + 8 div 8)) (8 mod 8)"
    by (simp add: example_engine_def)
  have b: "\<not> bitIsSet 8 (cells_view (example_engine 3 3) [0, 1])"
    using g by (simp add: bitIsSet_def)
  have "(2::nat) < 3" by simp
  from drawCells_rows_nth [of 0 2 "example_engine 3 3" 2 "cells_view (example_engine 3 3) [0, 1]"]
  have "drawCells_rows (example_engine 3 3) (cells_view (example_engine 3 3) [0, 1]) 0 ! 16
          = SetFillStyle DEAD_COLOR"
    using b by (simp add: d i)
  moreover have "length (drawCells_rows (example_engine 3 3)
                   (cells_view (example_engine 3 3) [0, 1]) 0) = 18"
    by (simp add: drawCells_rows_length d)
  ultimately have o: "drawCells_ops (example_engine 3 3) [0, 1] ! 17 = SetFillStyle DEAD_COLOR"
    by (simp add: drawCells_ops_def nth_append)
  from d i l g m b o show ?thesis by blast
qed

text \<open>
  Claim C1, at a universe of 3 by 3 cells that are all alive (bytes 255 and 1 in the
  engine's memory). Cell (0, 0) has its bit in byte 0, inside the one-byte array, and is
  painted \<open>ALIVE_COLOR\<close>. Cell (2, 2) has index 8: its bit is bit 0 of byte 1, set in
  the engine's memory but beyond the array, and the cell is painted \<open>DEAD_COLOR\<close>. The
  colour follows the cell's bit only while the bit's byte lies inside the array.
\<close>

theorem live_cell_painted_dead:
  "width (example_engine 3 3) = 3 \<and> height (example_engine 3 3) = 3
   \<and> getIndex (example_engine 3 3) 0 0 = 0
   \<and> bit (memory_buffer (example_engine 3 3) [255, 1]
            (universe_cells (example_engine 3 3) [255, 1] + 0 div 8)) (0 mod 8)
   \<and> drawCells_ops (example_engine 3 3) [255, 1] ! 1 = SetFillStyle ALIVE_COLOR
   \<and> getIndex (example_engine 3 3) 2 2 = 8
   \<and> bit (memory_buffer (example_engine 3 3) [255, 1]
            (universe_cells (example_engine 3 3) [255, 1] + 8 div 8)) (8 mod 8)
   \<and> drawCells_ops (example_engine 3 3) [255, 1] ! 17 = SetFillStyle DEAD_COLOR
   \<and> drawCells_ops (example_engine 3 3) [255, 1] ! 18 = FillRect 13 13 5 5
   \<and> ALIVE_COLOR \<noteq> DEAD_COLOR"
proof -
  let ?E = "example_engine 3 3"
  have d: "width ?E = 3" "height ?E = 3"
    by (simp_all add: example_engine_dims)
  have i: "getIndex ?E 0 0 = 0" "getIndex ?E 2 2 = 8"
    by (simp_all add: getIndex_def d)
  have m: "bit (memory_buffer ?E [255, 1] (universe_cells ?E [255, 1] + 0 div 8)) (0 mod 8)"
    "bit (memory_buffer ?E [255, 1] (universe_cells ?E [255, 1] + 8 div 8)) (8 mod 8)"
    by (simp_all add: example_engine_def)
  have len: "arr_length (cells_view ?E [255, 1]) = 1"
    by (simp add: cells_view_def d)
  have b0: "bitIsSet 0 (cells_view ?E [255, 1])"
    using m(1) by (simp add: bitIsSet_iff arr_get_def len) (simp add: cells_view_def)
  have b8: "\<not> bitIsSet 8 (cells_view ?E [255, 1])"
    by (simp add: bitIsSet_iff arr_get_def len)
  have "(0::nat) < 3" "(2::nat) < 3" by simp_all
  from drawCells_rows_nth [of 0 0 ?E 0 "cells_view ?E [255, 1]"] b0
  have r0: "drawCells_rows ?E (cells_view ?E [255, 1]) 0 ! 0 = SetFillStyle ALIVE_COLOR"
    by (simp add: d i)
  from drawCells_rows_nth [of 0 2 ?E 2 "cells_view ?E [255, 1]"] b8
  have r8: "drawCells_rows ?E (cells_view ?E [255, 1]) 0 ! 16 = SetFillStyle DEAD_COLOR"
    "drawCells_rows ?E (cells_view ?E [255, 1]) 0 ! 17 = FillRect 13 13 5 5"
    by (simp_all add: d i CELL_SIZE_def)
  have l: "length (drawCells_rows ?E (cells_view ?E [255, 1]) 0) = 18"
    by (simp add: drawCells_rows_length d)
  from r0 r8 l have o: "drawCells_ops ?E [255, 1] ! 1 = SetFillStyle ALIVE_COLOR"
    "drawCells_ops ?E [255, 1] ! 17 = SetFillStyle DEAD_COLOR"
    "drawCells_ops ?E [255, 1] ! 18 = FillRect 13 13 5 5"
    by (simp_all add: drawCells_ops_def nth_append)
  have c: "ALIVE_COLOR \<noteq> DEAD_COLOR"
    by (simp add: ALIVE_COLOR_def DEAD_COLOR_def)
  show ?thesis
    by (intro conjI) (rule d i m o c)+
qed

section \<open>Pausing\<close>

lemma run_Cons: "run N E s (ev # evs) = run N E (step N E s ev) evs"
  by (simp add: run_def)

lemma run_Nil: "run N E s [] = s"
  by (simp add: run_def)

lemma paused_step:
  assumes "isPaused s" and "callbacks s = []" and "\<not> is_PlayPauseClick ev"
  shows "isPaused (step N E s ev)" and "callbacks (step N E s ev) = []"
    and "\<not> is_CanvasClick ev \<Longrightarrow> step N E s ev = s"
    and "count_action UniverseTick (log (step N E s ev)) = count_action UniverseTick (log s)"
    and "count_action (Ctx BeginPath) (log (step N E s ev)) =
           count_action (Ctx BeginPath) (log s) + (if is_CanvasClick ev then 2 else 0)"
proof -
  show "isPaused (step N E s ev)" "callbacks (step N E s ev) = []"
    using assms by (cases ev; simp add: isPaused_def canvas_click_fields)+
  show "\<not> is_CanvasClick ev \<Longrightarrow> step N E s ev = s"
    using assms by (cases ev) simp_all
  show "count_action UniverseTick (log (step N E s ev)) = count_action UniverseTick (log s)"
    using assms
    by (cases ev) (simp_all add: canvas_click_fields count_action_simps count_nonCtx_map_Ctx)
  show "count_action (Ctx BeginPath) (log (step N E s ev)) =
           count_action (Ctx BeginPath) (log s) + (if is_CanvasClick ev then 2 else 0)"
    using assms
    by (cases ev)
       (simp_all add: canvas_click_fields count_action_simps count_action_map_Ctx
          drawGrid_ops_BeginPath drawCells_ops_BeginPath)
qed

lemma paused_run:
  assumes "isPaused s" and "callbacks s = []" and "filter is_PlayPauseClick evs = []"
  shows "isPaused (run N E s evs) \<and> callbacks (run N E s evs) = []
    \<and> run N E s evs = run N E s (filter is_CanvasClick evs)
    \<and> count_action UniverseTick (log (run N E s evs)) = count_action UniverseTick (log s)
    \<and> count_action (Ctx BeginPath) (log (run N E s evs)) =
        count_action (Ctx BeginPath) (log s) + 2 * length (filter is_CanvasClick evs)"
  using assms
proof (induction evs arbitrary: s)
  case Nil
  then show ?case by (simp add: run_Nil)
next
  case (Cons ev evs)
  from Cons.prems(3) have nb: "\<not> is_PlayPauseClick ev" and rest: "filter is_PlayPauseClick evs = []"
    by (simp_all split: if_splits)
  note st = paused_step [OF Cons.prems(1,2) nb, of N E]
  from Cons.IH [OF st(1) st(2) rest]
  have p: "isPaused (run N E (step N E s ev) evs)"
    and c: "callbacks (run N E (step N E s ev) evs) = []"
    and r: "run N E (step N E s ev) evs = run N E (step N E s ev) (filter is_CanvasClick evs)"
    and t: "count_action UniverseTick (log (run N E (step N E s ev) evs)) =
              count_action UniverseTick (log (step N E s ev))"
    and b: "count_action (Ctx BeginPath) (log (run N E (step N E s ev) evs)) =
              count_action (Ctx BeginPath) (log (step N E s ev))
                + 2 * length (filter is_CanvasClick evs)"
    by blast+
  have r': "run N E s (ev # evs) = run N E s (filter is_CanvasClick (ev # evs))"
  proof (cases "is_CanvasClick ev")
    case True
    with r show ?thesis by (simp only: run_Cons filter.simps if_True)
  next
    case False
    from st(3) [OF False] have e: "step N E s ev = s" .
    from r False show ?thesis unfolding run_Cons e by simp
  qed
  have b': "count_action (Ctx BeginPath) (log (run N E s (ev # evs))) =
        count_action (Ctx BeginPath) (log s) + 2 * length (filter is_CanvasClick (ev # evs))"
    unfolding run_Cons b st(5) by simp
  have t': "count_action UniverseTick (log (run N E s (ev # evs))) =
        count_action UniverseTick (log s)"
    unfolding run_Cons t st(4) ..
  from p c r' t' b' show ?case
    unfolding run_Cons by blast
qed

lemma pending_ok_pause: "pending_ok s \<Longrightarrow> callbacks (pause s) = []"
  by (simp add: pending_ok_def pause_fields split: option.splits)

text \<open>
  Counterexample to claim C2 as stated. On the paused example page one canvas click
  arrives; \<^verbatim>\<open>play()\<close> is not invoked and the page stays paused, yet the click's handler
  toggles cell (1, 3) and draws the grid and the cells.
\<close>

theorem canvas_click_draws_while_paused:
  "isPaused example_paused
   \<and> filter is_PlayPauseClick [CanvasClick (example_click (example_engine 4 4)) :: xnum event] = []
   \<and> isPaused (run example_number (example_engine 4 4) example_paused
         [CanvasClick (example_click (example_engine 4 4))])
   \<and> take 3 (drop (length (log example_paused))
         (log (run example_number (example_engine 4 4) example_paused
            [CanvasClick (example_click (example_engine 4 4))])))
       = [UniverseToggleCell (Fin 1) (Fin 3), Ctx BeginPath, Ctx (SetStrokeStyle GRID_COLOR)]
   \<and> count_action (Ctx BeginPath)
         (log (run example_number (example_engine 4 4) example_paused
            [CanvasClick (example_click (example_engine 4 4))]))
       = count_action (Ctx BeginPath) (log example_paused) + 2"
  using example_paused_isPaused
  by (simp add: run_def isPaused_def canvas_click_fields example_click_cell drawGrid_ops_def
        count_action_simps count_action_map_Ctx drawCells_ops_BeginPath
        filter_absent drawGrid_vertical_no_BeginPath drawGrid_horizontal_no_BeginPath)

text \<open>
  Claim C2, amended. After \<^verbatim>\<open>pause()\<close> has run in any state the page can reach, and
  as long as no play/pause click arrives (the only way \<^verbatim>\<open>play()\<close> is invoked), the
  page stays paused with no callback pending; animation-frame events run nothing, so the
  state is the one the canvas clicks alone produce; \<^verbatim>\<open>universe.tick()\<close> is never
  called; and the only drawing is one \<^verbatim>\<open>drawGrid\<close> and one \<^verbatim>\<open>drawCells\<close> per canvas
  click (each begins exactly one path).
\<close>

theorem paused_until_play:
  assumes "filter is_PlayPauseClick evs = []"
  shows "isPaused (run N E (pause (run N E (init N E now0 now1) evs0)) evs)
    \<and> callbacks (run N E (pause (run N E (init N E now0 now1) evs0)) evs) = []
    \<and> run N E (pause (run N E (init N E now0 now1) evs0)) evs =
        run N E (pause (run N E (init N E now0 now1) evs0)) (filter is_CanvasClick evs)
    \<and> count_action UniverseTick
          (log (run N E (pause (run N E (init N E now0 now1) evs0)) evs)) =
        count_action UniverseTick (log (pause (run N E (init N E now0 now1) evs0)))
    \<and> count_action (Ctx BeginPath)
          (log (run N E (pause (run N E (init N E now0 now1) evs0)) evs)) =
        count_action (Ctx BeginPath) (log (pause (run N E (init N E now0 now1) evs0)))
          + 2 * length (filter is_CanvasClick evs)"
proof -
  have ok: "pending_ok (run N E (init N E now0 now1) evs0)"
    by (rule pending_ok_run [OF pending_ok_init])
  have p: "isPaused (pause (run N E (init N E now0 now1) evs0))"
    by (simp add: isPaused_def pause_fields)
  from paused_run [OF p pending_ok_pause [OF ok] assms] show ?thesis .
qed

text \<open>
  The theorem on the paused example page, for a frame event, a canvas click and another
  frame event.
\<close>

theorem paused_until_play_witness:
  "filter is_PlayPauseClick
     [AnimationFrame 1 (Fin 32), CanvasClick (example_click (example_engine 4 4)),
      AnimationFrame 1 (Fin 48)] = []
   \<and> isPaused (run example_number (example_engine 4 4) example_paused
         [AnimationFrame 1 (Fin 32), CanvasClick (example_click (example_engine 4 4)),
          AnimationFrame 1 (Fin 48)])
   \<and> run example_number (example_engine 4 4) example_paused
         [AnimationFrame 1 (Fin 32), CanvasClick (example_click (example_engine 4 4)),
          AnimationFrame 1 (Fin 48)]
       = run example_number (example_engine 4 4) example_paused
           [CanvasClick (example_click (example_engine 4 4))]
   \<and> count_action UniverseTick
         (log (run example_number (example_engine 4 4) example_paused
            [AnimationFrame 1 (Fin 32), CanvasClick (example_click (example_engine 4 4)),
             AnimationFrame 1 (Fin 48)]))
       = count_action UniverseTick (log example_paused)
   \<and> count_action (Ctx BeginPath)
         (log (run example_number (example_engine 4 4) example_paused
            [AnimationFrame 1 (Fin 32), CanvasClick (example_click (example_engine 4 4)),
             AnimationFrame 1 (Fin 48)]))
       = count_action (Ctx BeginPath) (log example_paused) + 2"
proof -
  have h: "filter is_PlayPauseClick
     [AnimationFrame 1 (Fin 32), CanvasClick (example_click (example_engine 4 4)),
      AnimationFrame 1 (Fin 48)] = []"
    by simp
  have e: "pause (run example_number (example_engine 4 4)
             (init example_number (example_engine 4 4) (Fin 0) (Fin 16)) []) = example_paused"
    by (simp add: run_Nil example_paused_def)
  have f: "filter is_CanvasClick
     [AnimationFrame 1 (Fin 32), CanvasClick (example_click (example_engine 4 4)),
      AnimationFrame 1 (Fin 48) :: xnum event]
       = [CanvasClick (example_click (example_engine 4 4))]"
    by simp
  note inst = paused_until_play [OF h, of example_number "example_engine 4 4" "Fin 0" "Fin 16" "[]",
      unfolded e f]
  note a = inst [THEN conjunct1]
  note b = inst [THEN conjunct2, THEN conjunct2, THEN conjunct1]
  note c = inst [THEN conjunct2, THEN conjunct2, THEN conjunct2, THEN conjunct1]
  note d = inst [THEN conjunct2, THEN conjunct2, THEN conjunct2, THEN conjunct2]
  from d have d': "count_action (Ctx BeginPath)
         (log (run example_number (example_engine 4 4) example_paused
            [AnimationFrame 1 (Fin 32), CanvasClick (example_click (example_engine 4 4)),
             AnimationFrame 1 (Fin 48)]))
       = count_action (Ctx BeginPath) (log example_paused) + 2"
    by simp
  show ?thesis
    by (intro conjI) (rule h a b c d')+
qed

text \<open>
  Claim C3. In every state the page reaches between handlers, \<^verbatim>\<open>animationId\<close> is
  \<^verbatim>\<open>null\<close> exactly when no animation-frame callback is pending, and otherwise the one
  pending callback is the one it names. \<^verbatim>\<open>isPaused()\<close> is true exactly when
  \<^verbatim>\<open>animationId\<close> is \<^verbatim>\<open>null\<close>; \<^verbatim>\<open>pause()\<close> leaves it \<^verbatim>\<open>null\<close> with nothing
  pending; \<^verbatim>\<open>renderLoop\<close> leaves it equal to the handle of the frame it has just
  requested, which is its last action and is pending.
\<close>

theorem animationId_tracks_pending:
  "(animationId (run N E (init N E now0 now1) evs) = None)
      = (callbacks (run N E (init N E now0 now1) evs) = [])
   \<and> callbacks (run N E (init N E now0 now1) evs) =
       (case animationId (run N E (init N E now0 now1) evs) of None \<Rightarrow> [] | Some h \<Rightarrow> [h])
   \<and> isPaused s = (animationId s = None)
   \<and> animationId (pause s) = None
   \<and> callbacks (pause (run N E (init N E now0 now1) evs)) = []
   \<and> animationId (renderLoop N E now s) = Some (Suc (handle_counter s))
   \<and> last (log (renderLoop N E now s)) = RequestAnimationFrame (Suc (handle_counter s))
   \<and> Suc (handle_counter s) \<in> set (callbacks (renderLoop N E now s))"
proof -
  have ok: "pending_ok (run N E (init N E now0 now1) evs)"
    by (rule pending_ok_run [OF pending_ok_init])
  then have c: "callbacks (run N E (init N E now0 now1) evs) =
       (case animationId (run N E (init N E now0 now1) evs) of None \<Rightarrow> [] | Some h \<Rightarrow> [h])"
    by (simp add: pending_ok_def)
  then have "(animationId (run N E (init N E now0 now1) evs) = None)
      = (callbacks (run N E (init N E now0 now1) evs) = [])"
    by (simp split: option.splits)
  with c pending_ok_pause [OF ok] show ?thesis
    by (simp add: isPaused_def pause_fields renderLoop_fields)
qed

text \<open>
  Claim C7. A click on the play/pause button calls \<^verbatim>\<open>play()\<close> when the page is
  paused and \<^verbatim>\<open>pause()\<close> when it is not; \<^verbatim>\<open>play()\<close> leaves the page running and
  \<^verbatim>\<open>pause()\<close> leaves it paused, so one click inverts \<^verbatim>\<open>isPaused()\<close> and two
  clicks in a row restore it.
\<close>

theorem play_pause_toggle:
  "step N E s (PlayPauseClick now) = (if isPaused s then play N E now s else pause s)
   \<and> \<not> isPaused (play N E now s)
   \<and> isPaused (pause s)
   \<and> isPaused (step N E s (PlayPauseClick now)) = (\<not> isPaused s)
   \<and> isPaused (run N E s [PlayPauseClick now, PlayPauseClick now']) = isPaused s"
  by (simp add: run_def playPauseButton_click_def isPaused_def play_fields pause_fields)

section \<open>The render loop\<close>



section \<open>The clamp on rows and columns\<close>

lemma limit_not_NaN: "js_sub (Fin (real n)) (Fin 1) \<noteq> NaN"
  by (simp add: js_Fin)

lemma limit_exact:
  assumes "n < 2 ^ 53"
  shows "js_sub (Fin (real n)) (Fin 1) = Fin (real_of_int (int n - 1))"
proof -
  from assms have "int n < 2 ^ 53"
    by (metis of_nat_less_iff of_nat_numeral of_nat_power)
  then have "\<bar>int n - 1\<bar> < 2 ^ 53" by simp
  from binary64_of_int [OF this] show ?thesis
    by (simp add: js_Fin)
qed

lemma limit_ge_neg_one: "xle (Fin (- 1)) (js_sub (Fin (real n)) (Fin 1))"
proof (cases "n = 0")
  case True
  then show ?thesis by (simp add: js_Fin)
next
  case False
  then have "0 \<le> real n - 1" by simp
  from binary64_nonneg [OF this] have "xle (Fin 0) (js_sub (Fin (real n)) (Fin 1))"
    by (simp add: js_Fin)
  moreover have "xle (Fin (- 1)) (Fin 0)" by simp
  ultimately show ?thesis by (rule xle_trans [rotated])
qed

lemma limit_integral:
  "js_sub (Fin (real n)) (Fin 1) = PosInf \<or> js_sub (Fin (real n)) (Fin 1) = NegInf
   \<or> (\<exists>j. js_sub (Fin (real n)) (Fin 1) = Fin (of_int j))"
proof -
  have "real n - 1 = real_of_int (int n - 1)" by simp
  then have "js_sub (Fin (real n)) (Fin 1) = binary64 (real_of_int (int n - 1))"
    by (simp only: js_Fin)
  with binary64_of_int_integral [of "int n - 1"] show ?thesis by simp
qed

lemma clamp_cell_NaN: "clamp_cell c n = NaN \<longleftrightarrow> c = NaN"
  by (simp add: clamp_cell_def cell_pitch xmin_NaN js_div_six_NaN limit_not_NaN)

lemma clamp_cell_le:
  assumes "c \<noteq> NaN"
  shows "xle (clamp_cell c n) (js_sub (Fin (real n)) (Fin 1))"
  unfolding clamp_cell_def
  by (rule xmin_le2) (simp_all add: cell_pitch js_div_six_NaN limit_not_NaN assms)

lemma clamp_cell_border:
  assumes "real ((CELL_SIZE + 1) * n) \<le> t"
  shows "clamp_cell (Fin t) n = js_sub (Fin (real n)) (Fin 1)"
proof -
  let ?q = "js_div (Fin t) (Fin 6)"
  let ?b = "js_sub (Fin (real n)) (Fin 1)"
  from assms have "real n - 1 \<le> t / 6"
    by (simp add: CELL_SIZE_def)
  then have "xle (binary64 (real n - 1)) (binary64 (t / 6))"
    by (rule binary64_mono)
  then have "xle ?b ?q" by (simp add: js_Fin)
  from xfloor_ge_integral [OF this limit_integral] have "xle ?b (xfloor ?q)" .
  then have "xmin (xfloor ?q) ?b = ?b" by (rule xmin_absorb2)
  then show ?thesis
    by (simp add: clamp_cell_def cell_pitch)
qed

lemma clamp_cell_PosInf:
  "clamp_cell PosInf n = js_sub (Fin (real n)) (Fin 1)"
proof -
  have "xmin PosInf (js_sub (Fin (real n)) (Fin 1)) = js_sub (Fin (real n)) (Fin 1)"
    by (cases "js_sub (Fin (real n)) (Fin 1)") simp_all
  then show ?thesis
    by (simp add: clamp_cell_def cell_pitch js_div_def)
qed

lemma clamp_cell_below:
  assumes "t \<le> - real (CELL_SIZE + 1)"
  shows "clamp_cell (Fin t) n = xfloor (js_div (Fin t) (js_add (Fin (real CELL_SIZE)) (Fin 1)))"
    and "xle (clamp_cell (Fin t) n) (Fin (- 1))"
proof -
  let ?q = "js_div (Fin t) (Fin 6)"
  from assms have "t / 6 \<le> - 1" by (simp add: CELL_SIZE_def)
  then have "xle (binary64 (t / 6)) (Fin (- 1))" by (rule binary64_le_neg_one)
  then have "xle ?q (Fin (real_of_int (- 1)))" by (simp add: js_Fin)
  then have f: "xle (xfloor ?q) (Fin (real_of_int (- 1)))" by (rule xfloor_le_int)
  then have f': "xle (xfloor ?q) (Fin (- 1))" by simp
  from xle_trans [OF f' limit_ge_neg_one [of n]]
  have e: "xmin (xfloor ?q) (js_sub (Fin (real n)) (Fin 1)) = xfloor ?q"
    by (rule xmin_absorb1)
  then show "clamp_cell (Fin t) n = xfloor (js_div (Fin t) (js_add (Fin (real CELL_SIZE)) (Fin 1)))"
    by (simp add: clamp_cell_def cell_pitch)
  with f' show "xle (clamp_cell (Fin t) n) (Fin (- 1))"
    by (simp add: cell_pitch)
qed

lemma click_clamp:
  "click_row E event = clamp_cell (canvasTop E event) (height E)"
  "click_col E event = clamp_cell (canvasLeft E event) (width E)"
  by (simp_all add: click_row_def click_col_def clamp_cell_def)

section \<open>The example clicks in double arithmetic\<close>

lemma scaled_scaleX:
  "scaleX (example_engine 8 2) example_click_scaled
     = Fin (real_of_int 4585483256959050 * 2 powi (- 3 - 52))"
proof -
  have "scaleX (example_engine 8 2) example_click_scaled = binary64 (7 / 55)"
    by (simp add: scaleX_def example_click_scaled_def canvas_width_def example_engine_dims
          CELL_SIZE_def js_Fin)
  also have "\<dots> = Fin (real_of_int 4585483256959050 * 2 powi (- 3 - 52))"
    by (rule binary64_eval) (simp_all add: round_half_even_def Let_def)
  finally show ?thesis .
qed

lemma scaled_canvasLeft:
  "canvasLeft (example_engine 8 2) example_click_scaled
     = Fin (real_of_int 5910974510923775 * 2 powi (5 - 52))"
proof -
  have "canvasLeft (example_engine 8 2) example_click_scaled
          = binary64 (330 * (real_of_int 4585483256959050 * 2 powi (- 3 - 52)))"
    unfolding canvasLeft_def scaled_scaleX
    by (simp add: example_click_scaled_def js_Fin binary64_numeral)
  also have "\<dots> = Fin (real_of_int 5910974510923775 * 2 powi (5 - 52))"
    by (rule binary64_eval) (simp_all add: round_half_even_def Let_def)
  finally show ?thesis .
qed

lemma scaled_quotient:
  "js_div (canvasLeft (example_engine 8 2) example_click_scaled) (Fin 6)
     = Fin (real_of_int 7881299347898367 * 2 powi (2 - 52))"
proof -
  have "js_div (canvasLeft (example_engine 8 2) example_click_scaled) (Fin 6)
          = binary64 (real_of_int 5910974510923775 * 2 powi (5 - 52) / 6)"
    by (simp add: scaled_canvasLeft js_Fin)
  also have "\<dots> = Fin (real_of_int 7881299347898367 * 2 powi (2 - 52))"
    by (rule binary64_eval) (simp_all add: round_half_even_def Let_def)
  finally show ?thesis .
qed

lemma scaled_click_cell:
  "click_col (example_engine 8 2) example_click_scaled = Fin 6"
  "click_row (example_engine 8 2) example_click_scaled = Fin 0"
proof -
  show "click_col (example_engine 8 2) example_click_scaled = Fin 6"
    unfolding click_col_def cell_pitch scaled_quotient
    by (simp add: example_engine_dims js_Fin binary64_numeral)
  show "click_row (example_engine 8 2) example_click_scaled = Fin 0"
    by (simp add: click_row_def canvasTop_def scaleY_def example_click_scaled_def
          canvas_height_def example_engine_dims CELL_SIZE_def js_Fin binary64_numeral)
qed

lemma example_click_coords:
  "canvasLeft (example_engine 4 4) (example_click (example_engine 4 4)) = Fin 24"
  "canvasTop (example_engine 4 4) (example_click (example_engine 4 4)) = Fin 8"
  "canvasLeft (example_engine 4 4) (example_click_outside (example_engine 4 4)) = Fin (- 6)"
  "canvasTop (example_engine 4 4) (example_click_outside (example_engine 4 4)) = Fin (- 6)"
  by (simp_all add: canvasTop_def canvasLeft_def scaleX_def scaleY_def example_click_def
        example_click_outside_def canvas_height_def canvas_width_def example_engine_dims
        CELL_SIZE_def js_Fin binary64_numeral binary64_neg_numeral)

section \<open>Canvas clicks\<close>

text \<open>
  Claim C5. Every click on the canvas calls \<^verbatim>\<open>universe.toggle_cell\<close> once, with
  \<open>row = Math.min(Math.floor(canvasTop / (CELL_SIZE + 1)), height - 1)\<close> and
  \<open>col = Math.min(Math.floor(canvasLeft / (CELL_SIZE + 1)), width - 1)\<close>, where
  \<open>canvasTop\<close> and \<open>canvasLeft\<close> are the click's coordinates relative to the canvas,
  scaled by canvas size over rectangle size, all in the arithmetic of doubles; then it
  draws the grid and then the cells of the toggled universe, once each. It leaves
  \<^verbatim>\<open>animationId\<close> and the pending callbacks alone.
\<close>

theorem canvas_click_toggles_and_redraws:
  "log (canvas_click E event s) =
     log s @ [UniverseToggleCell (click_row E event) (click_col E event)]
       @ map Ctx (drawGrid_ops E)
       @ [UniverseCells]
       @ map Ctx (drawCells_ops E (universe (canvas_click E event s)))
   \<and> universe (canvas_click E event s) =
        universe_toggle_cell E (click_row E event) (click_col E event) (universe s)
   \<and> click_row E event =
        xmin (xfloor (js_div (canvasTop E event) (js_add (Fin (real CELL_SIZE)) (Fin 1))))
             (js_sub (Fin (real (height E))) (Fin 1))
   \<and> click_col E event =
        xmin (xfloor (js_div (canvasLeft E event) (js_add (Fin (real CELL_SIZE)) (Fin 1))))
             (js_sub (Fin (real (width E))) (Fin 1))
   \<and> canvasTop E event =
        js_mul (js_sub (clientY event) (rect_top event))
               (js_div (Fin (real (canvas_height E))) (rect_height event))
   \<and> canvasLeft E event =
        js_mul (js_sub (clientX event) (rect_left event))
               (js_div (Fin (real (canvas_width E))) (rect_width event))
   \<and> count_action (UniverseToggleCell (click_row E event) (click_col E event))
          (log (canvas_click E event s)) =
        count_action (UniverseToggleCell (click_row E event) (click_col E event)) (log s) + 1
   \<and> count_action (Ctx BeginPath) (log (canvas_click E event s)) =
        count_action (Ctx BeginPath) (log s) + 2
   \<and> animationId (canvas_click E event s) = animationId s
   \<and> callbacks (canvas_click E event s) = callbacks s"
  by (simp add: canvas_click_fields click_row_def click_col_def canvasTop_def canvasLeft_def
        scaleX_def scaleY_def count_action_simps count_action_map_Ctx count_nonCtx_map_Ctx
        drawGrid_ops_BeginPath drawCells_ops_BeginPath)

text \<open>
  The theorem for the click on the stretched canvas. In exact arithmetic the click lies
  at canvas pixel 42, the left edge of column 7; in doubles the scale factor 49 / 385 and
  the product round to a value just below 42, and the column passed is 6.
\<close>

theorem canvas_click_toggles_and_redraws_witness:
  "canvasLeft (example_engine 8 2) example_click_scaled
     = Fin (real_of_int 5910974510923775 * 2 powi (5 - 52))
   \<and> click_col (example_engine 8 2) example_click_scaled = Fin 6
   \<and> click_row (example_engine 8 2) example_click_scaled = Fin 0
   \<and> log (canvas_click (example_engine 8 2) example_click_scaled example_wide) =
        log example_wide @ [UniverseToggleCell (Fin 0) (Fin 6)]
          @ map Ctx (drawGrid_ops (example_engine 8 2))
          @ [UniverseCells]
          @ map Ctx (drawCells_ops (example_engine 8 2)
              (universe (canvas_click (example_engine 8 2) example_click_scaled example_wide)))"
proof -
  note t = canvas_click_toggles_and_redraws
    [of "example_engine 8 2" example_click_scaled example_wide, THEN conjunct1]
  from t have "log (canvas_click (example_engine 8 2) example_click_scaled example_wide) =
        log example_wide @ [UniverseToggleCell (Fin 0) (Fin 6)]
          @ map Ctx (drawGrid_ops (example_engine 8 2))
          @ [UniverseCells]
          @ map Ctx (drawCells_ops (example_engine 8 2)
              (universe (canvas_click (example_engine 8 2) example_click_scaled example_wide)))"
    unfolding scaled_click_cell .
  with scaled_canvasLeft scaled_click_cell show ?thesis by blast
qed

text \<open>
  Counterexample to claim C9 as stated. For the click on the canvas that is not
  rendered, the scale factors are infinite, the coordinates are the product of zero and
  infinity, which is NaN, and \<^verbatim>\<open>Math.min\<close> of NaN is NaN: the row and column passed to
  \<^verbatim>\<open>universe.toggle_cell\<close> are NaN, and NaN is not at most \<open>height - 1\<close>.
\<close>

theorem hidden_canvas_click_passes_NaN:
  "scaleX (example_engine 4 4) example_click_hidden = PosInf
   \<and> canvasLeft (example_engine 4 4) example_click_hidden = NaN
   \<and> canvasTop (example_engine 4 4) example_click_hidden = NaN
   \<and> click_row (example_engine 4 4) example_click_hidden = NaN
   \<and> click_col (example_engine 4 4) example_click_hidden = NaN
   \<and> js_sub (Fin (real (height (example_engine 4 4)))) (Fin 1) = Fin 3
   \<and> \<not> xle (click_row (example_engine 4 4) example_click_hidden)
            (js_sub (Fin (real (height (example_engine 4 4)))) (Fin 1))
   \<and> \<not> xle (click_col (example_engine 4 4) example_click_hidden)
            (js_sub (Fin (real (width (example_engine 4 4)))) (Fin 1))
   \<and> log (canvas_click (example_engine 4 4) example_click_hidden example_paused)
         ! length (log example_paused) = UniverseToggleCell NaN NaN"
proof -
  have s: "scaleX (example_engine 4 4) example_click_hidden = PosInf"
    "scaleY (example_engine 4 4) example_click_hidden = PosInf"
    by (simp_all add: scaleX_def scaleY_def example_click_hidden_def js_div_def
          canvas_width_def canvas_height_def example_engine_dims CELL_SIZE_def)
  have c: "canvasLeft (example_engine 4 4) example_click_hidden = NaN"
    "canvasTop (example_engine 4 4) example_click_hidden = NaN"
    unfolding canvasLeft_def canvasTop_def s
    by (simp_all add: example_click_hidden_def js_Fin js_mul_def)
  have r: "click_row (example_engine 4 4) example_click_hidden = NaN"
    "click_col (example_engine 4 4) example_click_hidden = NaN"
    by (simp_all add: click_clamp clamp_cell_NaN c)
  have l: "js_sub (Fin (real (height (example_engine 4 4)))) (Fin 1) = Fin 3"
    by (simp add: example_engine_dims js_Fin binary64_numeral)
  have g: "log (canvas_click (example_engine 4 4) example_click_hidden example_paused)
         ! length (log example_paused) = UniverseToggleCell NaN NaN"
    by (simp add: canvas_click_fields r)
  from s c r l g show ?thesis by simp
qed

text \<open>
  Claim C9, amended. The row passed to \<^verbatim>\<open>universe.toggle_cell\<close> is NaN exactly when
  the click's canvas coordinate \<open>canvasTop\<close> is NaN; otherwise it is at most
  \<open>height - 1\<close> as the script computes it (that integer exactly while \<open>height\<close> is
  below \<open>2 ^ 53\<close>). A coordinate on or beyond the bottom border line, or infinite, gives
  exactly that last row, whatever the size of the universe.
  Nothing clamps from below: a coordinate at least one cell size below zero gives the
  floor of the quotient unchanged, at most \<open>- 1\<close>. The same holds of the column,
  \<open>canvasLeft\<close> and \<open>width\<close>.
\<close>

theorem click_cell_clamped_above:
  "log (canvas_click E event s) ! length (log s) =
     UniverseToggleCell (click_row E event) (click_col E event)
   \<and> (click_row E event = NaN) = (canvasTop E event = NaN)
   \<and> (click_col E event = NaN) = (canvasLeft E event = NaN)
   \<and> (canvasTop E event \<noteq> NaN
        \<longrightarrow> xle (click_row E event) (js_sub (Fin (real (height E))) (Fin 1)))
   \<and> (canvasLeft E event \<noteq> NaN
        \<longrightarrow> xle (click_col E event) (js_sub (Fin (real (width E))) (Fin 1)))
   \<and> (height E < 2 ^ 53
        \<longrightarrow> js_sub (Fin (real (height E))) (Fin 1) = Fin (real_of_int (int (height E) - 1)))
   \<and> (width E < 2 ^ 53
        \<longrightarrow> js_sub (Fin (real (width E))) (Fin 1) = Fin (real_of_int (int (width E) - 1)))
   \<and> (\<forall>t. canvasTop E event = Fin t \<and> real ((CELL_SIZE + 1) * height E) \<le> t
        \<longrightarrow> click_row E event = js_sub (Fin (real (height E))) (Fin 1))
   \<and> (\<forall>t. canvasLeft E event = Fin t \<and> real ((CELL_SIZE + 1) * width E) \<le> t
        \<longrightarrow> click_col E event = js_sub (Fin (real (width E))) (Fin 1))
   \<and> (canvasTop E event = PosInf
        \<longrightarrow> click_row E event = js_sub (Fin (real (height E))) (Fin 1))
   \<and> (canvasLeft E event = PosInf
        \<longrightarrow> click_col E event = js_sub (Fin (real (width E))) (Fin 1))
   \<and> (\<forall>t. canvasTop E event = Fin t \<and> t \<le> - real (CELL_SIZE + 1)
        \<longrightarrow> click_row E event =
              xfloor (js_div (canvasTop E event) (js_add (Fin (real CELL_SIZE)) (Fin 1)))
            \<and> xle (click_row E event) (Fin (- 1)))
   \<and> (\<forall>t. canvasLeft E event = Fin t \<and> t \<le> - real (CELL_SIZE + 1)
        \<longrightarrow> click_col E event =
              xfloor (js_div (canvasLeft E event) (js_add (Fin (real CELL_SIZE)) (Fin 1)))
            \<and> xle (click_col E event) (Fin (- 1)))"
proof -
  have 1: "log (canvas_click E event s) ! length (log s) =
     UniverseToggleCell (click_row E event) (click_col E event)"
    by (simp add: canvas_click_fields)
  have 2: "(click_row E event = NaN) = (canvasTop E event = NaN)"
    "(click_col E event = NaN) = (canvasLeft E event = NaN)"
    by (simp_all add: click_clamp clamp_cell_NaN)
  have 3: "canvasTop E event \<noteq> NaN
        \<longrightarrow> xle (click_row E event) (js_sub (Fin (real (height E))) (Fin 1))"
    "canvasLeft E event \<noteq> NaN
        \<longrightarrow> xle (click_col E event) (js_sub (Fin (real (width E))) (Fin 1))"
    by (simp_all add: click_clamp clamp_cell_le)
  have 4: "height E < 2 ^ 53
        \<longrightarrow> js_sub (Fin (real (height E))) (Fin 1) = Fin (real_of_int (int (height E) - 1))"
    "width E < 2 ^ 53
        \<longrightarrow> js_sub (Fin (real (width E))) (Fin 1) = Fin (real_of_int (int (width E) - 1))"
    by (simp_all add: limit_exact)
  have 5: "\<forall>t. canvasTop E event = Fin t \<and> real ((CELL_SIZE + 1) * height E) \<le> t
        \<longrightarrow> click_row E event = js_sub (Fin (real (height E))) (Fin 1)"
    "\<forall>t. canvasLeft E event = Fin t \<and> real ((CELL_SIZE + 1) * width E) \<le> t
        \<longrightarrow> click_col E event = js_sub (Fin (real (width E))) (Fin 1)"
    using clamp_cell_border by (auto simp: click_clamp)
  have 6: "canvasTop E event = PosInf
        \<longrightarrow> click_row E event = js_sub (Fin (real (height E))) (Fin 1)"
    "canvasLeft E event = PosInf
        \<longrightarrow> click_col E event = js_sub (Fin (real (width E))) (Fin 1)"
    by (simp_all add: click_clamp clamp_cell_PosInf)
  have 7: "\<forall>t. canvasTop E event = Fin t \<and> t \<le> - real (CELL_SIZE + 1)
        \<longrightarrow> click_row E event =
              xfloor (js_div (canvasTop E event) (js_add (Fin (real CELL_SIZE)) (Fin 1)))
            \<and> xle (click_row E event) (Fin (- 1))"
    "\<forall>t. canvasLeft E event = Fin t \<and> t \<le> - real (CELL_SIZE + 1)
        \<longrightarrow> click_col E event =
              xfloor (js_div (canvasLeft E event) (js_add (Fin (real CELL_SIZE)) (Fin 1)))
            \<and> xle (click_col E event) (Fin (- 1))"
    using clamp_cell_below by (auto simp: click_clamp)
  show ?thesis
    by (intro conjI) (rule 1 2 3 4 5 6 7)+
qed

text \<open>
  The theorem for the example click, which lies on the right border line, and for the
  click outside the canvas.
\<close>

theorem click_cell_clamped_above_witness:
  "width (example_engine 4 4) < 2 ^ 53
   \<and> canvasLeft (example_engine 4 4) (example_click (example_engine 4 4)) = Fin 24
   \<and> real ((CELL_SIZE + 1) * width (example_engine 4 4)) \<le> 24
   \<and> click_col (example_engine 4 4) (example_click (example_engine 4 4)) = Fin 3
   \<and> canvasTop (example_engine 4 4) (example_click (example_engine 4 4)) \<noteq> NaN
   \<and> xle (click_row (example_engine 4 4) (example_click (example_engine 4 4))) (Fin 3)
   \<and> canvasTop (example_engine 4 4) (example_click_outside (example_engine 4 4)) = Fin (- 6)
   \<and> - 6 \<le> - real (CELL_SIZE + 1)
   \<and> click_row (example_engine 4 4) (example_click_outside (example_engine 4 4)) = Fin (- 1)
   \<and> canvasLeft (example_engine 4 4) (example_click_outside (example_engine 4 4)) = Fin (- 6)
   \<and> click_col (example_engine 4 4) (example_click_outside (example_engine 4 4)) = Fin (- 1)
   \<and> log (canvas_click (example_engine 4 4) (example_click_outside (example_engine 4 4))
          example_paused) ! length (log example_paused)
        = UniverseToggleCell (Fin (- 1)) (Fin (- 1))"
proof -
  let ?E = "example_engine 4 4"
  note in1 = click_cell_clamped_above [of ?E "example_click ?E" example_paused]
  note in2 = click_cell_clamped_above [of ?E "example_click_outside ?E" example_paused]
  have w: "width ?E < 2 ^ 53" by (simp add: example_engine_dims)
  have b: "real ((CELL_SIZE + 1) * width ?E) \<le> 24" "- 6 \<le> - real (CELL_SIZE + 1)"
    by (simp_all add: example_engine_dims CELL_SIZE_def)
  from in1 b(1) example_click_coords(1)
  have col: "click_col ?E (example_click ?E) = js_sub (Fin (real (width ?E))) (Fin 1)"
    by blast
  from in1 w
  have "js_sub (Fin (real (width ?E))) (Fin 1) = Fin (real_of_int (int (width ?E) - 1))"
    by blast
  with col have col': "click_col ?E (example_click ?E) = Fin 3"
    by (simp add: example_engine_dims)
  have n: "canvasTop ?E (example_click ?E) \<noteq> NaN"
    by (simp add: example_click_coords)
  with in1 have "xle (click_row ?E (example_click ?E)) (js_sub (Fin (real (height ?E))) (Fin 1))"
    by blast
  then have row: "xle (click_row ?E (example_click ?E)) (Fin 3)"
    by (simp add: example_engine_dims js_Fin binary64_numeral)
  from in2 b(2) example_click_coords(4)
  have "click_row ?E (example_click_outside ?E) =
      xfloor (js_div (canvasTop ?E (example_click_outside ?E))
                (js_add (Fin (real CELL_SIZE)) (Fin 1)))"
    by blast
  then have r2: "click_row ?E (example_click_outside ?E) = Fin (- 1)"
    by (simp add: example_click_coords CELL_SIZE_def js_Fin binary64_numeral)
  from in2 b(2) example_click_coords(3)
  have "click_col ?E (example_click_outside ?E) =
      xfloor (js_div (canvasLeft ?E (example_click_outside ?E))
                (js_add (Fin (real CELL_SIZE)) (Fin 1)))"
    by blast
  then have c2: "click_col ?E (example_click_outside ?E) = Fin (- 1)"
    by (simp add: example_click_coords CELL_SIZE_def js_Fin binary64_numeral)
  from in2 have "log (canvas_click ?E (example_click_outside ?E) example_paused)
       ! length (log example_paused)
        = UniverseToggleCell (click_row ?E (example_click_outside ?E))
            (click_col ?E (example_click_outside ?E))"
    by blast
  then have l: "log (canvas_click ?E (example_click_outside ?E) example_paused)
       ! length (log example_paused) = UniverseToggleCell (Fin (- 1)) (Fin (- 1))"
    by (simp only: r2 c2)
  show ?thesis
    by (intro conjI) (rule w b col' n row r2 c2 l example_click_coords)+
qed

end
